theory Spec2Isabelle
  imports Main "HOL-Library.Sublist" "HOL-Library.Multiset"
begin

section \<open>Syntax trees\<close>

text \<open>
  The scorer sees a function declaration through \<^verbatim>\<open>ast.Walk\<close>, which hands every node of
  the subtree to the visitor, and through one type switch on the node's dynamic type.
  A node is therefore its kind (the Go type of the node, with the operator for a binary
  expression) and the list of its non-nil children, in the order \<^verbatim>\<open>ast.Walk\<close> descends
  into them.
\<close>

text \<open>The binary operators of Go (\<^verbatim>\<open>token.Token\<close> values a \<^verbatim>\<open>BinaryExpr.Op\<close> holds).\<close>

datatype token =
    ADD | SUB | MUL | QUO | REM
  | AND | OR | XOR | SHL | SHR | AND_NOT
  | LAND | LOR
  | EQL | LSS | GTR | NEQ | LEQ | GEQ

text \<open>
  The kind of a node: the six node types the visitor's type switch names, a binary
  expression with its operator, and every other node type of \<^verbatim>\<open>go/ast\<close> under its Go
  name (\<open>OtherNode ''BlockStmt''\<close>, \<open>OtherNode ''Ident''\<close>, \<open>OtherNode ''FuncLit''\<close>, ...).
\<close>

datatype kind =
    FuncDecl | IfStmt | ForStmt | RangeStmt | CaseClause | CommClause
  | BinaryExpr token
  | OtherNode string

datatype node = Node kind "node list"

section \<open>The scorer\<close>

text \<open>
  \<^verbatim>\<open>complexityVisitor\<close> has the single field \<^verbatim>\<open>Complexity int\<close>; the visitor is modelled
  by the value of that field. Go's \<^verbatim>\<open>int\<close> is modelled as \<^typ>\<open>int\<close>: the counter grows by
  at most one per node of a tree held in memory, so it stays far below \<open>2^63\<close>.

  \<^verbatim>\<open>Visit\<close> is also called with \<^verbatim>\<open>nil\<close> (after the children of a node); no case of the type
  switch matches \<^verbatim>\<open>nil\<close>. It always returns the visitor itself, so the walk always descends.
\<close>

type_synonym complexityVisitor = int

fun Visit :: "complexityVisitor \<Rightarrow> node option \<Rightarrow> complexityVisitor" where
  "Visit v None = v"
| "Visit v (Some (Node FuncDecl cs)) = v + 1"
| "Visit v (Some (Node IfStmt cs)) = v + 1"
| "Visit v (Some (Node ForStmt cs)) = v + 1"
| "Visit v (Some (Node RangeStmt cs)) = v + 1"
| "Visit v (Some (Node CaseClause cs)) = v + 1"
| "Visit v (Some (Node CommClause cs)) = v + 1"
| "Visit v (Some (Node (BinaryExpr Op) cs)) = (if Op = LAND \<or> Op = LOR then v + 1 else v)"
| "Visit v (Some (Node k cs)) = v"

text \<open>
  \<^verbatim>\<open>ast.Walk(v, node)\<close>: call \<^verbatim>\<open>v.Visit(node)\<close>; the visitor it returns (here always \<open>v\<close>)
  walks each child in turn, and is then called once more with \<^verbatim>\<open>nil\<close>.
\<close>

fun Walk :: "complexityVisitor \<Rightarrow> node \<Rightarrow> complexityVisitor"
  and walkList :: "complexityVisitor \<Rightarrow> node list \<Rightarrow> complexityVisitor" where
  "Walk v (Node k cs) = Visit (walkList (Visit v (Some (Node k cs))) cs) None"
| "walkList v [] = v"
| "walkList v (c # cs) = walkList (Walk v c) cs"

section \<open>Function declarations\<close>

text \<open>
  The parts of \<^verbatim>\<open>*ast.FuncDecl\<close> the code reads by name are typed. A receiver type is an
  \<^verbatim>\<open>ast.Expr\<close>, of which \<^verbatim>\<open>recvString\<close> tells three shapes apart: \<^verbatim>\<open>*ast.Ident\<close>,
  \<^verbatim>\<open>*ast.StarExpr\<close>, and anything else (kept as its subtree). Files are parsed with mode 0,
  so no comment node is attached to a declaration or a field.
\<close>

datatype expr = Ident string | StarExpr expr | OtherExpr node

datatype field = Field (Names: "string list") (Type: expr)

record Position =
  Filename :: string
  Offset :: int
  Line :: int
  Column :: int

text \<open>
  \<open>Recv\<close> is the field list of the receiver (\<open>None\<close> for \<^verbatim>\<open>nil\<close>), \<open>Name\<close> the name of the
  identifier \<^verbatim>\<open>fn.Name\<close>, \<open>Sig\<close> the subtree of the signature (\<^verbatim>\<open>fn.Type\<close>), \<open>Body\<close> the
  subtree of the body (\<open>None\<close> for an external function), and \<open>FuncPos\<close> the position
  \<^verbatim>\<open>fset.Position(fn.Pos())\<close>.
\<close>

datatype funcDecl =
  MkFuncDecl (Recv: "field list option") (Name: string) (Sig: node) (Body: "node option")
    (FuncPos: Position)

text \<open>The subtree \<^verbatim>\<open>ast.Walk\<close> sees under a function declaration.\<close>

fun exprNode :: "expr \<Rightarrow> node" where
  "exprNode (Ident name) = Node (OtherNode ''Ident'') []"
| "exprNode (StarExpr x) = Node (OtherNode ''StarExpr'') [exprNode x]"
| "exprNode (OtherExpr n) = n"

definition fieldNode :: "field \<Rightarrow> node" where
  "fieldNode g =
     Node (OtherNode ''Field'') (map (\<lambda>name. Node (OtherNode ''Ident'') []) (Names g) @ [exprNode (Type g)])"

definition fieldListNode :: "field list \<Rightarrow> node" where
  "fieldListNode fl = Node (OtherNode ''FieldList'') (map fieldNode fl)"

definition funcDeclChildren :: "funcDecl \<Rightarrow> node list" where
  "funcDeclChildren fn =
     (case Recv fn of None \<Rightarrow> [] | Some fl \<Rightarrow> [fieldListNode fl])
     @ [Node (OtherNode ''Ident'') [], Sig fn]
     @ (case Body fn of None \<Rightarrow> [] | Some b \<Rightarrow> [b])"

definition funcDeclNode :: "funcDecl \<Rightarrow> node" where
  "funcDeclNode fn = Node FuncDecl (funcDeclChildren fn)"

text \<open>\<^verbatim>\<open>complexity\<close>: walk the declaration with a fresh visitor and read its counter.\<close>

definition complexity :: "funcDecl \<Rightarrow> int" where
  "complexity fn = Walk 0 (funcDeclNode fn)"

subsection \<open>The scoring rule in the specification's words\<close>

text \<open>All nodes of a subtree, the root included.\<close>

fun nodes :: "node \<Rightarrow> node list"
  and nodesList :: "node list \<Rightarrow> node list" where
  "nodes (Node k cs) = Node k cs # nodesList cs"
| "nodesList [] = []"
| "nodesList (c # cs) = nodes c @ nodesList cs"

fun kindOf :: "node \<Rightarrow> kind" where
  "kindOf (Node k cs) = k"

definition branchPoint :: "node \<Rightarrow> bool" where
  "branchPoint n =
     (kindOf n = FuncDecl \<or> kindOf n = IfStmt \<or> kindOf n = ForStmt \<or> kindOf n = RangeStmt
      \<or> kindOf n = CaseClause \<or> kindOf n = CommClause)"

definition logicalOp :: "node \<Rightarrow> bool" where
  "logicalOp n = (kindOf n = BinaryExpr LAND \<or> kindOf n = BinaryExpr LOR)"

definition specScore :: "node \<Rightarrow> int" where
  "specScore n = int (length (filter branchPoint (nodes n))) + int (length (filter logicalOp (nodes n)))"

section \<open>Measurements\<close>

text \<open>\<^verbatim>\<open>type stat struct\<close>: one record per analysed function.\<close>

record stat =
  PkgName :: string
  FuncName :: string
  Complexity :: int
  Pos :: Position

text \<open>
  A Go slice is \<^verbatim>\<open>nil\<close> (\<open>None\<close>) or holds elements. \<^verbatim>\<open>append\<close> to a \<^verbatim>\<open>nil\<close> slice
  allocates, so its result is never \<^verbatim>\<open>nil\<close>; ranging over a \<^verbatim>\<open>nil\<close> slice runs no
  iteration, and its length is 0.
\<close>

type_synonym 'a slice = "'a list option"

fun elems :: "'a slice \<Rightarrow> 'a list" where
  "elems None = []"
| "elems (Some xs) = xs"

fun appendSlice :: "'a slice \<Rightarrow> 'a \<Rightarrow> 'a slice" where
  "appendSlice None x = Some [x]"
| "appendSlice (Some xs) x = Some (xs @ [x])"

section \<open>The unit extractor\<close>

text \<open>
  \<^verbatim>\<open>recvString\<close>: \<open>T\<close>, \<open>*T\<close>, or \<open>BADRECV\<close> for a receiver type of another shape.
\<close>

fun recvString :: "expr \<Rightarrow> string" where
  "recvString (Ident name) = name"
| "recvString (StarExpr x) = ''*'' @ recvString x"
| "recvString (OtherExpr n) = ''BADRECV''"

text \<open>
  \<^verbatim>\<open>(*ast.FieldList).NumFields\<close>: the number of parameters of a field list; a field without
  names counts once; 0 for a \<^verbatim>\<open>nil\<close> list.
\<close>

fun NumFields :: "field list option \<Rightarrow> nat" where
  "NumFields None = 0"
| "NumFields (Some fl) = sum_list (map (\<lambda>g. if length (Names g) = 0 then 1 else length (Names g)) fl)"

text \<open>
  \<^verbatim>\<open>funcName\<close>. \<^verbatim>\<open>fmt.Sprintf("(%s).%s", recvString(typ), fn.Name)\<close> prints the identifier
  \<^verbatim>\<open>fn.Name\<close> through its \<^verbatim>\<open>String\<close> method, which is its name. \<^verbatim>\<open>fn.Recv.List[0]\<close> is read
  only when \<^verbatim>\<open>NumFields\<close> is positive, that is, when the list is not empty.
\<close>

definition funcName :: "funcDecl \<Rightarrow> string" where
  "funcName fn =
     (case Recv fn of
        None \<Rightarrow> Name fn
      | Some fl \<Rightarrow>
          if 0 < NumFields (Some fl)
          then ''('' @ recvString (Type (fl ! 0)) @ '').'' @ Name fn
          else Name fn)"

text \<open>
  A top-level declaration is a function declaration or something else (\<^verbatim>\<open>*ast.GenDecl\<close>,
  \<^verbatim>\<open>*ast.BadDecl\<close>); a file has the name of its package (\<^verbatim>\<open>f.Name.Name\<close>) and its
  declarations.
\<close>

datatype decl = DeclFunc funcDecl | DeclOther node

datatype astFile = File (PackageName: string) (Decls: "decl list")

fun buildStats_loop :: "string \<Rightarrow> decl list \<Rightarrow> stat slice \<Rightarrow> stat slice" where
  "buildStats_loop pkg [] stats = stats"
| "buildStats_loop pkg (DeclFunc fn # ds) stats =
     buildStats_loop pkg ds
       (appendSlice stats
          \<lparr>PkgName = pkg, FuncName = funcName fn, Complexity = complexity fn, Pos = FuncPos fn\<rparr>)"
| "buildStats_loop pkg (DeclOther n # ds) stats = buildStats_loop pkg ds stats"

definition buildStats :: "astFile \<Rightarrow> stat slice \<Rightarrow> stat slice" where
  "buildStats f stats = buildStats_loop (PackageName f) (Decls f) stats"

section \<open>The environment and the process state\<close>

text \<open>
  What the operating system and the parser answer is a parameter of the model:
  \<^item> \<open>PathSeparator\<close>: \<^verbatim>\<open>os.PathSeparator\<close>;
  \<^item> \<open>Stat\<close>: \<^verbatim>\<open>os.Stat\<close>, an error or whether the path is a directory;
  \<^item> \<open>ParseFile\<close>: \<^verbatim>\<open>parser.ParseFile(fset, fname, nil, 0)\<close>, an error or the file's tree;
  \<^item> \<open>WalkEntries\<close>: the calls \<^verbatim>\<open>filepath.Walk\<close> makes for a root to its function, in
    order, as long as the function returns \<^verbatim>\<open>nil\<close>: the path of each entry with either the
    error met there, or whether the entry is a directory.
\<close>

datatype error = Error string

record world =
  PathSeparator :: char
  Stat :: "string \<Rightarrow> error + bool"
  ParseFile :: "string \<Rightarrow> error + astFile"
  WalkEntries :: "string \<Rightarrow> (string \<times> (error + bool)) list"

text \<open>
  The package-level variables, and a log of the calls made to the environment (which
  the program does not hold: it records what was run).
\<close>

datatype event = StatCall string | WalkCall string | ParseCall string

record state =
  skipGodepsGlobal :: bool
  skipVendorGlobal :: bool
  statsGlobal :: "stat slice"
  trace :: "event list"

definition initState :: state where
  "initState = \<lparr>skipGodepsGlobal = False, skipVendorGlobal = False, statsGlobal = None, trace = []\<rparr>"

definition logEvent :: "event \<Rightarrow> state \<Rightarrow> state" where
  "logEvent e g = g\<lparr>trace := trace g @ [e]\<rparr>"

section \<open>The path walker and the exclusion policy\<close>

text \<open>
  A result \<open>Inl err\<close> is \<^verbatim>\<open>log.Fatal(err)\<close>: the process exits and nothing is returned.
\<close>

definition isDir :: "world \<Rightarrow> string \<Rightarrow> state \<Rightarrow> bool \<times> state" where
  "isDir w filename g =
     ((case Stat w filename of Inl err \<Rightarrow> False | Inr d \<Rightarrow> d), logEvent (StatCall filename) g)"

definition analyzeFile :: "world \<Rightarrow> string \<Rightarrow> stat slice \<Rightarrow> state \<Rightarrow> error + (stat slice \<times> state)" where
  "analyzeFile w fname stats g =
     (case ParseFile w fname of
        Inl err \<Rightarrow> Inl err
      | Inr f \<Rightarrow> Inr (buildStats f stats, logEvent (ParseCall fname) g))"

text \<open>
  \<^verbatim>\<open>strings.Join([]string{dirname, "Godeps"}, string(os.PathSeparator))\<close> is the root, the
  separator and the name; \<^verbatim>\<open>strings.HasPrefix(s, p)\<close> is \<open>prefix p s\<close> and
  \<^verbatim>\<open>strings.HasSuffix(s, p)\<close> is \<open>suffix p s\<close>. The source reads the flag as
  \<^verbatim>\<open>*skipGodepsGlobal\<close>; the variable is a \<^verbatim>\<open>bool\<close>, and its value is what is read.
\<close>

definition isAnalyzeTargetGodeps :: "world \<Rightarrow> state \<Rightarrow> string \<Rightarrow> string \<Rightarrow> bool" where
  "isAnalyzeTargetGodeps w g dirname path =
     (let prefix0 = dirname @ [PathSeparator w] @ ''Godeps'';
          prefix1 = (if dirname = ''.'' then ''Godeps'' else prefix0)
      in if prefix prefix1 path \<and> skipGodepsGlobal g then False else suffix ''.go'' path)"

definition isAnalyzeTargetVendor :: "world \<Rightarrow> state \<Rightarrow> string \<Rightarrow> string \<Rightarrow> bool" where
  "isAnalyzeTargetVendor w g dirname path =
     (let prefix0 = dirname @ [PathSeparator w] @ ''vendor'';
          prefix1 = (if dirname = ''.'' then ''vendor'' else prefix0)
      in if prefix prefix1 path \<and> skipVendorGlobal g then False else suffix ''.go'' path)"

text \<open>
  \<^verbatim>\<open>filepath.Walk\<close> calls its function on each entry; the first result other than \<^verbatim>\<open>nil\<close>
  ends the walk and is returned by \<^verbatim>\<open>Walk\<close>. (The function of \<^verbatim>\<open>analyzeDir\<close> returns the
  error it was given, never \<^verbatim>\<open>filepath.SkipDir\<close>.) The function works on the variables it
  captures, here \<open>'s\<close>.
\<close>

fun filepathWalk ::
  "(string \<times> (error + bool)) list \<Rightarrow> (string \<times> (error + bool) \<Rightarrow> 's \<Rightarrow> error + ('s \<times> error option))
     \<Rightarrow> 's \<Rightarrow> error + ('s \<times> error option)" where
  "filepathWalk [] walkFn s = Inr (s, None)"
| "filepathWalk (e # es) walkFn s =
     (case walkFn e s of
        Inl fatal \<Rightarrow> Inl fatal
      | Inr (s', Some err) \<Rightarrow> Inr (s', Some err)
      | Inr (s', None) \<Rightarrow> filepathWalk es walkFn s')"

text \<open>
  The function literal of \<^verbatim>\<open>analyzeDir\<close>, called with \<open>(path, info, err)\<close>: the entry is
  \<open>(path, Inl err)\<close> when \<open>err\<close> is not \<^verbatim>\<open>nil\<close>, and \<open>(path, Inr (info.IsDir()))\<close> otherwise. It
  updates the captured \<open>stats\<close> and returns \<open>err\<close>.
\<close>

fun walkFn ::
  "world \<Rightarrow> string \<Rightarrow> string \<times> (error + bool) \<Rightarrow> stat slice \<times> state
     \<Rightarrow> error + ((stat slice \<times> state) \<times> error option)" where
  "walkFn w dirname (path, Inl err) (stats, g) = Inr ((stats, g), Some err)"
| "walkFn w dirname (path, Inr infoIsDir) (stats, g) =
     (if \<not> infoIsDir \<and> isAnalyzeTargetGodeps w g dirname path \<and> isAnalyzeTargetVendor w g dirname path
      then (case analyzeFile w path stats g of
              Inl fatal \<Rightarrow> Inl fatal
            | Inr sg \<Rightarrow> Inr (sg, None))
      else Inr ((stats, g), None))"

text \<open>\<^verbatim>\<open>analyzeDir\<close> does not read what \<^verbatim>\<open>filepath.Walk\<close> returns.\<close>

definition analyzeDir :: "world \<Rightarrow> string \<Rightarrow> stat slice \<Rightarrow> state \<Rightarrow> error + (stat slice \<times> state)" where
  "analyzeDir w dirname stats g =
     (case filepathWalk (WalkEntries w dirname) (walkFn w dirname) (stats, logEvent (WalkCall dirname) g) of
        Inl fatal \<Rightarrow> Inl fatal
      | Inr (sg, walkResult) \<Rightarrow> Inr sg)"

fun analyze_loop :: "world \<Rightarrow> string list \<Rightarrow> stat slice \<Rightarrow> state \<Rightarrow> error + (stat slice \<times> state)" where
  "analyze_loop w [] stats g = Inr (stats, g)"
| "analyze_loop w (path # paths) stats g =
     (case isDir w path g of
        (True, g1) \<Rightarrow>
          (case analyzeDir w path stats g1 of
             Inl fatal \<Rightarrow> Inl fatal
           | Inr (stats', g') \<Rightarrow> analyze_loop w paths stats' g')
      | (False, g1) \<Rightarrow>
          (case analyzeFile w path stats g1 of
             Inl fatal \<Rightarrow> Inl fatal
           | Inr (stats', g') \<Rightarrow> analyze_loop w paths stats' g'))"

text \<open>\<^verbatim>\<open>analyze\<close> starts from \<^verbatim>\<open>var stats []stat\<close>, a \<^verbatim>\<open>nil\<close> slice.\<close>

definition analyze :: "world \<Rightarrow> string list \<Rightarrow> state \<Rightarrow> error + (stat slice \<times> state)" where
  "analyze w paths g = analyze_loop w paths None g"

section \<open>Sorting\<close>

text \<open>The methods of \<^verbatim>\<open>byComplexity\<close>, on the elements of the slice.\<close>

definition Len :: "stat list \<Rightarrow> nat" where
  "Len s = length s"

definition Swap :: "stat list \<Rightarrow> nat \<Rightarrow> nat \<Rightarrow> stat list" where
  "Swap s i j = s[i := s ! j, j := s ! i]"

definition Less :: "stat list \<Rightarrow> nat \<Rightarrow> nat \<Rightarrow> bool" where
  "Less s i j = (Complexity (s ! i) \<ge> Complexity (s ! j))"

text \<open>
  \<^verbatim>\<open>sort.Sort\<close> belongs to Go's library, not to this program. It reaches the slice through
  \<open>Len\<close>, \<open>Less\<close> and \<open>Swap\<close> only, so whatever the library's algorithm does, what it leaves
  is a reordering of the slice. The library is therefore a parameter of the model: a
  sorter is any function that reorders a slice.
\<close>

typedef sorter = "{f :: stat list \<Rightarrow> stat list. \<forall>s. mset (f s) = mset s}"
  by (rule exI[of _ id]) simp

definition sortWith :: "sorter \<Rightarrow> stat list \<Rightarrow> stat list" where
  "sortWith srt s = Rep_sorter srt s"

text \<open>\<^verbatim>\<open>sort.Sort(byComplexity(statsGlobal))\<close>; for a \<^verbatim>\<open>nil\<close> slice \<open>Len\<close> is 0 and nothing moves.\<close>

fun sortSort :: "sorter \<Rightarrow> stat slice \<Rightarrow> stat slice" where
  "sortSort srt None = None"
| "sortSort srt (Some s) = Some (sortWith srt s)"

text \<open>
  The library's insertion sort, which is all \<^verbatim>\<open>sort.Sort\<close> runs on a slice as short as those
  of the example runs below (two to four elements):
  \<^verbatim>\<open>for i := a + 1; i < b; i++ { for j := i; j > a && data.Less(j, j-1); j-- { data.Swap(j, j-1) } }\<close>
  with \<open>a = 0\<close> and \<open>b = Len\<close>.
\<close>

fun insertionSort_inner :: "stat list \<Rightarrow> nat \<Rightarrow> stat list" where
  "insertionSort_inner s 0 = s"
| "insertionSort_inner s (Suc j) =
     (if Less s (Suc j) j then insertionSort_inner (Swap s (Suc j) j) j else s)"

definition insertionSort :: "stat list \<Rightarrow> stat list" where
  "insertionSort s = fold (\<lambda>i s. insertionSort_inner s i) [1..<Len s] s"

section \<open>The aggregator and its cache\<close>

text \<open>
  \<^verbatim>\<open>getStats\<close>: rebuild when the cached slice is \<^verbatim>\<open>nil\<close> or a flag differs from the cached
  one; then sort the cached slice in place and return it.
\<close>

definition getStats ::
  "sorter \<Rightarrow> world \<Rightarrow> string list \<Rightarrow> bool \<Rightarrow> bool \<Rightarrow> state \<Rightarrow> error + (stat slice \<times> state)" where
  "getStats srt w paths skipGodeps skipVendor g =
     (if statsGlobal g = None \<or> skipGodepsGlobal g \<noteq> skipGodeps \<or> skipVendorGlobal g \<noteq> skipVendor
      then (case analyze w paths (g\<lparr>skipGodepsGlobal := skipGodeps, skipVendorGlobal := skipVendor\<rparr>) of
              Inl fatal \<Rightarrow> Inl fatal
            | Inr (stats, g') \<Rightarrow> Inr (sortSort srt stats, g'\<lparr>statsGlobal := sortSort srt stats\<rparr>))
      else Inr (sortSort srt (statsGlobal g), g\<lparr>statsGlobal := sortSort srt (statsGlobal g)\<rparr>))"

text \<open>
  The exported measurement entry point returns what \<^verbatim>\<open>getStats\<close> returns (its declaration
  in the source names no result type).
\<close>

definition GetStats ::
  "sorter \<Rightarrow> world \<Rightarrow> string list \<Rightarrow> bool \<Rightarrow> bool \<Rightarrow> state \<Rightarrow> error + (stat slice \<times> state)" where
  "GetStats srt w paths skipGodeps skipVendor g = getStats srt w paths skipGodeps skipVendor g"

text \<open>
  \<^verbatim>\<open>average\<close> sums the complexities in a loop and returns the \<^verbatim>\<open>float64\<close> quotient
  \<^verbatim>\<open>float64(total) / float64(len(stats))\<close>. Floating-point division is not modelled:
  \<open>averageOperands\<close> is the pair of \<^verbatim>\<open>total\<close> and \<^verbatim>\<open>len(stats)\<close> the division is applied to.
  The exported \<^verbatim>\<open>Average\<close> reaches the cache through \<^verbatim>\<open>getStats\<close> only.
\<close>

definition averageOperands :: "stat slice \<Rightarrow> int \<times> nat" where
  "averageOperands stats = (fold (\<lambda>s total. total + Complexity s) (elems stats) 0, length (elems stats))"

definition Average ::
  "sorter \<Rightarrow> world \<Rightarrow> string list \<Rightarrow> bool \<Rightarrow> bool \<Rightarrow> state \<Rightarrow> error + ((int \<times> nat) \<times> state)" where
  "Average srt w paths skipGodeps skipVendor g =
     (case getStats srt w paths skipGodeps skipVendor g of
        Inl fatal \<Rightarrow> Inl fatal
      | Inr (stats, g') \<Rightarrow> Inr (averageOperands stats, g'))"

section \<open>Notions used to state the properties\<close>

text \<open>The nodes of the body of a declaration.\<close>

definition bodyNodes :: "funcDecl \<Rightarrow> node list" where
  "bodyNodes fn = (case Body fn of None \<Rightarrow> [] | Some b \<Rightarrow> nodes b)"

text \<open>A node that adds to the score.\<close>

definition counted :: "node \<Rightarrow> bool" where
  "counted n = (branchPoint n \<or> logicalOp n)"

text \<open>Every measurement of a slice has complexity at least 1.\<close>

definition allPositive :: "stat slice \<Rightarrow> bool" where
  "allPositive stats = list_all (\<lambda>s. 1 \<le> Complexity s) (elems stats)"

text \<open>Descending order of complexity.\<close>

definition descending :: "stat list \<Rightarrow> bool" where
  "descending s = sorted_wrt (\<lambda>a b. Complexity a \<ge> Complexity b) s"

text \<open>
  What the inner loop of the insertion sort does to the element it moves, seen from the
  end of the sorted part: \<open>x\<close> passes every \<open>y\<close> with \<open>Complexity x \<ge> Complexity y\<close>.
\<close>

fun insertBack :: "stat \<Rightarrow> stat list \<Rightarrow> stat list" where
  "insertBack x [] = [x]"
| "insertBack x (y # ys) = (if Complexity x \<ge> Complexity y then y # insertBack x ys else x # y # ys)"

text \<open>
  The prefix of an exclusion check: the root joined with the reserved name, or the bare
  name for the root \<open>.\<close>; and the exclusion of a path under a root.
\<close>

definition reservedPrefix :: "world \<Rightarrow> string \<Rightarrow> string \<Rightarrow> string" where
  "reservedPrefix w dirname name = (if dirname = ''.'' then name else dirname @ [PathSeparator w] @ name)"

definition excluded :: "world \<Rightarrow> state \<Rightarrow> string \<Rightarrow> string \<Rightarrow> bool" where
  "excluded w g dirname path =
     (skipGodepsGlobal g \<and> prefix (reservedPrefix w dirname ''Godeps'') path
      \<or> skipVendorGlobal g \<and> prefix (reservedPrefix w dirname ''vendor'') path)"

text \<open>A result with the cached slice of its state replaced.\<close>

definition withCache :: "stat slice \<Rightarrow> error + (stat slice \<times> state) \<Rightarrow> error + (stat slice \<times> state)" where
  "withCache c r =
     (case r of Inl fatal \<Rightarrow> Inl fatal | Inr (stats, g) \<Rightarrow> Inr (stats, g\<lparr>statsGlobal := c\<rparr>))"

definition withCacheW ::
  "stat slice \<Rightarrow> error + ((stat slice \<times> state) \<times> error option)
     \<Rightarrow> error + ((stat slice \<times> state) \<times> error option)" where
  "withCacheW c r =
     (case r of
        Inl fatal \<Rightarrow> Inl fatal
      | Inr ((stats, g), res) \<Rightarrow> Inr ((stats, g\<lparr>statsGlobal := c\<rparr>), res))"

text \<open>
  A property of the collected measurements and the state that logging a call and
  extracting a file keep.
\<close>

definition stable :: "(stat slice \<times> state \<Rightarrow> bool) \<Rightarrow> bool" where
  "stable I =
     (\<forall>stats g. I (stats, g) \<longrightarrow> (\<forall>e. I (stats, logEvent e g)) \<and> (\<forall>f. I (buildStats f stats, g)))"

section \<open>Example inputs\<close>

definition ident :: node where
  "ident = Node (OtherNode ''Ident'') []"

definition block :: "node list \<Rightarrow> node" where
  "block stmts = Node (OtherNode ''BlockStmt'') stmts"

definition noParams :: node where
  "noParams = Node (OtherNode ''FuncType'') [Node (OtherNode ''FieldList'') []]"

definition noPos :: Position where
  "noPos = \<lparr>Filename = ''x.go'', Offset = 0, Line = 1, Column = 1\<rparr>"

definition plainFunc :: "string \<Rightarrow> node list \<Rightarrow> funcDecl" where
  "plainFunc name stmts = MkFuncDecl None name noParams (Some (block stmts)) noPos"

text \<open>
  The statements \<^verbatim>\<open>if a { } else if b { for range c {} } ; x = d && e\<close> of a body, and the
  function \<^verbatim>\<open>func f() { ... }\<close> with this body.
\<close>

definition exampleBody :: "node list" where
  "exampleBody =
     [Node IfStmt [ident, block [],
        Node IfStmt [ident, block [Node RangeStmt [ident, block []]]]],
      Node (OtherNode ''AssignStmt'') [ident, Node (BinaryExpr LAND) [ident, ident]]]"

definition exampleFunc :: funcDecl where
  "exampleFunc = plainFunc ''f'' exampleBody"

text \<open>
  The statement \<^verbatim>\<open>h := func() { for { } }\<close>, whose loop sits inside a function literal, and
  the function \<^verbatim>\<open>func g() { ... }\<close> with this body.
\<close>

definition loopLit :: node where
  "loopLit = Node (OtherNode ''FuncLit'') [noParams, block [Node ForStmt [block []]]]"

definition closureBody :: "node list" where
  "closureBody = [Node (OtherNode ''AssignStmt'') [ident, loopLit]]"

definition closureFunc :: funcDecl where
  "closureFunc = plainFunc ''g'' closureBody"

text \<open>\<^verbatim>\<open>func e() { }\<close>\<close>

definition emptyFunc :: funcDecl where
  "emptyFunc = plainFunc ''e'' []"

text \<open>
  \<^verbatim>\<open>func s(a [len([1]func(){func() { for { } }})]int) { }\<close>: the body is empty, and the array
  length in the signature holds a function literal with a loop.
\<close>

definition sigFunc :: funcDecl where
  "sigFunc =
     MkFuncDecl None ''s''
       (Node (OtherNode ''FuncType'')
          [Node (OtherNode ''FieldList'')
             [Node (OtherNode ''Field'')
                [ident,
                 Node (OtherNode ''ArrayType'')
                   [Node (OtherNode ''CallExpr'')
                      [ident,
                       Node (OtherNode ''CompositeLit'')
                         [Node (OtherNode ''ArrayType'') [Node (OtherNode ''BasicLit'') [], noParams],
                          loopLit]],
                    ident]]]])
       (Some (block [])) noPos"

text \<open>\<^verbatim>\<open>func (p *Point) Dist() { }\<close>\<close>

definition pointDist :: funcDecl where
  "pointDist =
     MkFuncDecl (Some [Field [''p''] (StarExpr (Ident ''Point''))]) ''Dist'' noParams (Some (block [])) noPos"

text \<open>
  Three files: \<open>fileMain\<close> declares \<open>e\<close>, \<open>f\<close> and \<open>g\<close> (and imports something), \<open>fileLib\<close>
  declares the method \<open>Dist\<close>, \<open>fileDoc\<close> declares no function.
\<close>

definition fileMain :: astFile where
  "fileMain =
     File ''main'' [DeclOther (Node (OtherNode ''GenDecl'') []), DeclFunc emptyFunc, DeclFunc exampleFunc,
       DeclFunc closureFunc]"

definition fileLib :: astFile where
  "fileLib = File ''lib'' [DeclFunc pointDist]"

definition fileDoc :: astFile where
  "fileDoc = File ''doc'' [DeclOther (Node (OtherNode ''GenDecl'') [])]"

definition statE :: stat where
  "statE = \<lparr>PkgName = ''main'', FuncName = ''e'', Complexity = 1, Pos = noPos\<rparr>"

definition statF :: stat where
  "statF = \<lparr>PkgName = ''main'', FuncName = ''f'', Complexity = 5, Pos = noPos\<rparr>"

definition statG :: stat where
  "statG = \<lparr>PkgName = ''main'', FuncName = ''g'', Complexity = 2, Pos = noPos\<rparr>"

definition statDist :: stat where
  "statDist = \<lparr>PkgName = ''lib'', FuncName = ''(*Point).Dist'', Complexity = 1, Pos = noPos\<rparr>"

text \<open>
  An environment. The directory \<open>src\<close> holds \<open>Godeps/dep.go\<close> (which does not parse),
  \<open>main.go\<close>, \<open>readme.md\<close> and \<open>vendor/lib.go\<close>. In the directory \<open>locked\<close> the entry \<open>b\<close> cannot
  be read; \<open>a.go\<close> comes before it and \<open>c.go\<close> after it. \<open>vendor/notes.txt\<close> and \<open>doc.go\<close> are
  plain files.
\<close>

definition demoStat :: "string \<Rightarrow> error + bool" where
  "demoStat p =
     (if p = ''src'' \<or> p = ''locked'' then Inr True
      else if p = ''vendor/notes.txt'' \<or> p = ''doc.go'' then Inr False
      else Inl (Error ''no such file or directory''))"

definition demoParseFile :: "string \<Rightarrow> error + astFile" where
  "demoParseFile p =
     (if p = ''src/main.go'' \<or> p = ''locked/a.go'' then Inr fileMain
      else if p = ''src/vendor/lib.go'' \<or> p = ''locked/c.go'' \<or> p = ''vendor/notes.txt'' then Inr fileLib
      else if p = ''doc.go'' then Inr fileDoc
      else Inl (Error ''expected declaration''))"

definition demoWalkEntries :: "string \<Rightarrow> (string \<times> (error + bool)) list" where
  "demoWalkEntries root =
     (if root = ''src'' then
        [(''src'', Inr True), (''src/Godeps'', Inr True), (''src/Godeps/dep.go'', Inr False),
         (''src/main.go'', Inr False), (''src/readme.md'', Inr False), (''src/vendor'', Inr True),
         (''src/vendor/lib.go'', Inr False)]
      else if root = ''locked'' then
        [(''locked'', Inr True), (''locked/a.go'', Inr False),
         (''locked/b'', Inl (Error ''permission denied'')), (''locked/c.go'', Inr False)]
      else [(root, Inl (Error ''no such file or directory''))])"

definition demoWorld :: world where
  "demoWorld =
     \<lparr>PathSeparator = CHR ''/'', Stat = demoStat, ParseFile = demoParseFile, WalkEntries = demoWalkEntries\<rparr>"

text \<open>The sorter of the example runs: the library's insertion sort.\<close>

definition exampleSorter :: sorter where
  "exampleSorter = Abs_sorter insertionSort"

text \<open>A state whose cache was filled under the flags \<open>(True, False)\<close>.\<close>

definition cachedState :: state where
  "cachedState =
     \<lparr>skipGodepsGlobal = True, skipVendorGlobal = False, statsGlobal = Some [statE, statF],
      trace = [StatCall ''src'', WalkCall ''src'', ParseCall ''src/main.go'']\<rparr>"

text \<open>States with both flags set, and with the first flag only.\<close>

definition skipBoth :: state where
  "skipBoth = \<lparr>skipGodepsGlobal = True, skipVendorGlobal = True, statsGlobal = None, trace = []\<rparr>"

definition skipGodepsOnly :: state where
  "skipGodepsOnly = \<lparr>skipGodepsGlobal = True, skipVendorGlobal = False, statsGlobal = None, trace = []\<rparr>"

text \<open>
  What a walk of \<open>dirname\<close> started in state \<open>g\<close> may have done when the state is \<open>h\<close>: the
  flags are those of \<open>g\<close>, and the log has grown by the walk and by the parsing of files
  that end in \<open>.go\<close>, are not excluded, and are entries of the walk that are not
  directories.
\<close>

definition walkedOnly :: "world \<Rightarrow> state \<Rightarrow> string \<Rightarrow> state \<Rightarrow> bool" where
  "walkedOnly w g dirname h =
     (skipGodepsGlobal h = skipGodepsGlobal g \<and> skipVendorGlobal h = skipVendorGlobal g
      \<and> (\<exists>files. trace h = trace g @ WalkCall dirname # map ParseCall files
            \<and> (\<forall>p\<in>set files. suffix ''.go'' p \<and> \<not> excluded w g dirname p
                  \<and> (p, Inr False) \<in> set (WalkEntries w dirname))))"

section \<open>Properties of the scorer\<close>

lemma Visit_None: "Visit v None = v"
  by simp

lemma Visit_Some:
  "Visit v (Some n) = v + (if branchPoint n then 1 else 0) + (if logicalOp n then 1 else 0)"
proof (cases n)
  case (Node k cs)
  then show ?thesis
    by (cases k) (auto simp: branchPoint_def logicalOp_def)
qed

lemma Walk_count:
  "Walk v n = v + specScore n"
  "walkList v ns =
     v + int (length (filter branchPoint (nodesList ns))) + int (length (filter logicalOp (nodesList ns)))"
proof (induction v n and v ns rule: Walk_walkList.induct)
  case (1 v k cs)
  have "Walk v (Node k cs) = walkList (Visit v (Some (Node k cs))) cs"
    by simp
  also have "\<dots> = Visit v (Some (Node k cs))
      + int (length (filter branchPoint (nodesList cs))) + int (length (filter logicalOp (nodesList cs)))"
    by (rule "1.IH")
  finally show ?case
    by (simp add: Visit_Some specScore_def del: Visit.simps)
next
  case (2 v)
  show ?case by simp
next
  case (3 v c cs)
  have "walkList v (c # cs) = walkList (Walk v c) cs"
    by simp
  also have "\<dots> = Walk v c
      + int (length (filter branchPoint (nodesList cs))) + int (length (filter logicalOp (nodesList cs)))"
    by (rule "3.IH"(2))
  finally show ?case
    by (simp add: "3.IH"(1) specScore_def)
qed

lemma complexity_exampleBody: "complexity (plainFunc name exampleBody) = 5"
  by (simp add: complexity_def exampleBody_def plainFunc_def funcDeclNode_def funcDeclChildren_def
      noParams_def block_def ident_def)

lemma complexity_closureBody: "complexity (plainFunc name closureBody) = 2"
  by (simp add: complexity_def closureBody_def loopLit_def plainFunc_def funcDeclNode_def
      funcDeclChildren_def noParams_def block_def ident_def)

text \<open>
  Claim C1. The score of a function declaration is the number of nodes of its subtree
  that are a function declaration, an \<open>if\<close>, a \<open>for\<close>, a range statement, a case clause or
  a communication clause, plus the number of binary expressions with \<open>&&\<close> or \<open>||\<close>; every
  node of the subtree is looked at, those of function literals too, and no other node
  adds anything. A function without parameters and with the body
  \<^verbatim>\<open>if a { } else if b { for range c {} } ; x = d && e\<close> scores 5, and one whose only loop
  is inside a function literal scores 2.
\<close>

theorem complexity_counts_branch_points:
  "complexity fn
     = int (length (filter branchPoint (nodes (funcDeclNode fn))))
       + int (length (filter logicalOp (nodes (funcDeclNode fn))))
   \<and> complexity (plainFunc name exampleBody) = 5
   \<and> complexity (plainFunc name closureBody) = 2"
  using Walk_count(1)[of 0 "funcDeclNode fn"] complexity_exampleBody complexity_closureBody
  by (simp add: complexity_def specScore_def)

section \<open>Sorting sorts\<close>

lemma set_insertBack: "set (insertBack x ys) = insert x (set ys)"
  by (induction ys) auto

lemma mset_insertBack: "mset (insertBack x ys) = add_mset x (mset ys)"
  by (induction ys) auto

lemma length_insertBack: "length (insertBack x ys) = Suc (length ys)"
  by (induction ys) auto

lemma ascending_insertBack:
  "sorted_wrt (\<lambda>a b. Complexity a \<le> Complexity b) ys
   \<Longrightarrow> sorted_wrt (\<lambda>a b. Complexity a \<le> Complexity b) (insertBack x ys)"
  by (induction ys) (auto simp: set_insertBack)

lemma descending_rev:
  "descending (rev ys) = sorted_wrt (\<lambda>a b. Complexity a \<le> Complexity b) ys"
  by (simp add: descending_def sorted_wrt_rev)

lemma inner_insertBack:
  "length pre = j \<Longrightarrow> insertionSort_inner (pre @ x # post) j = rev (insertBack x (rev pre)) @ post"
proof (induction j arbitrary: pre post)
  case 0
  then show ?case by simp
next
  case (Suc j)
  then obtain pre' y where pre: "pre = pre' @ [y]" and len: "length pre' = j"
    by (cases pre rule: rev_cases) auto
  have nth1: "(pre @ x # post) ! Suc j = x"
    using Suc.prems by (simp add: nth_append)
  have nth2: "(pre @ x # post) ! j = y"
    using len by (simp add: pre nth_append)
  have swap: "Swap (pre @ x # post) (Suc j) j = pre' @ x # y # post"
    unfolding Swap_def nth1 nth2 using len
    by (simp add: pre list_update_append)
  have less: "Less (pre @ x # post) (Suc j) j = (Complexity x \<ge> Complexity y)"
    unfolding Less_def nth1 nth2 ..
  show ?case
  proof (cases "Complexity x \<ge> Complexity y")
    case True
    then have "insertionSort_inner (pre @ x # post) (Suc j) = insertionSort_inner (pre' @ x # y # post) j"
      by (simp only: insertionSort_inner.simps less swap if_True)
    also have "\<dots> = rev (insertBack x (rev pre')) @ y # post"
      by (rule Suc.IH[OF len])
    finally show ?thesis using True by (simp add: pre)
  next
    case False
    then have "insertionSort_inner (pre @ x # post) (Suc j) = pre @ x # post"
      by (simp only: insertionSort_inner.simps less if_False)
    then show ?thesis using False by (simp add: pre)
  qed
qed

lemma inner_step:
  assumes "j < length t" "descending (take j t)"
  shows "length (insertionSort_inner t j) = length t"
    and "mset (insertionSort_inner t j) = mset t"
    and "descending (take (Suc j) (insertionSort_inner t j))"
proof -
  have t: "t = take j t @ t ! j # drop (Suc j) t"
    using assms(1) by (rule id_take_nth_drop)
  have lt: "length (take j t) = j"
    using assms(1) by simp
  have eq: "insertionSort_inner t j = rev (insertBack (t ! j) (rev (take j t))) @ drop (Suc j) t"
    using inner_insertBack[OF lt, of "t ! j" "drop (Suc j) t"] t by simp
  show "length (insertionSort_inner t j) = length t"
    unfolding eq using assms(1) by (simp add: length_insertBack)
  have "mset (insertionSort_inner t j) = mset (take j t @ t ! j # drop (Suc j) t)"
    unfolding eq by (simp add: mset_insertBack)
  then show "mset (insertionSort_inner t j) = mset t"
    using t by simp
  have "take (Suc j) (insertionSort_inner t j) = rev (insertBack (t ! j) (rev (take j t)))"
    unfolding eq using lt by (simp add: length_insertBack)
  moreover have "descending (rev (insertBack (t ! j) (rev (take j t))))"
    unfolding descending_rev
    using assms(2) by (intro ascending_insertBack) (simp add: descending_def sorted_wrt_rev)
  ultimately show "descending (take (Suc j) (insertionSort_inner t j))"
    by simp
qed

lemma outer_inv:
  "1 \<le> b \<Longrightarrow> b \<le> length s \<Longrightarrow>
   length (fold (\<lambda>i s. insertionSort_inner s i) [1..<b] s) = length s
   \<and> mset (fold (\<lambda>i s. insertionSort_inner s i) [1..<b] s) = mset s
   \<and> descending (take b (fold (\<lambda>i s. insertionSort_inner s i) [1..<b] s))"
proof (induction b)
  case 0
  then show ?case by simp
next
  case (Suc b)
  show ?case
  proof (cases "b = 0")
    case True
    then show ?thesis
      by (cases s) (simp_all add: descending_def)
  next
    case False
    define t where "t = fold (\<lambda>i s. insertionSort_inner s i) [1..<b] s"
    have ih: "length t = length s" "mset t = mset s" "descending (take b t)"
      using Suc False by (simp_all add: t_def)
    have step: "fold (\<lambda>i s. insertionSort_inner s i) [1..<Suc b] s = insertionSort_inner t b"
      using False by (simp add: t_def)
    have b: "b < length t"
      using Suc.prems ih(1) by simp
    show ?thesis
      unfolding step
      using inner_step[OF b ih(3)] ih(1,2) by simp
  qed
qed

lemma insertionSort_sorts:
  "length (insertionSort s) = length s" "mset (insertionSort s) = mset s" "descending (insertionSort s)"
proof -
  have all: "length (insertionSort s) = length s \<and> mset (insertionSort s) = mset s
      \<and> descending (take (length s) (insertionSort s))"
  proof (cases s)
    case Nil
    then show ?thesis by (simp add: insertionSort_def Len_def descending_def)
  next
    case (Cons a as)
    then have "1 \<le> length s" by simp
    from outer_inv[OF this order_refl] show ?thesis
      unfolding insertionSort_def Len_def .
  qed
  then show "length (insertionSort s) = length s" "mset (insertionSort s) = mset s"
    by simp_all
  with all show "descending (insertionSort s)"
    by simp
qed

section \<open>The analysis does not read the cache\<close>

lemma analyzeFile_cache:
  "analyzeFile w p stats (g\<lparr>statsGlobal := c\<rparr>) = withCache c (analyzeFile w p stats g)"
  by (simp add: analyzeFile_def withCache_def logEvent_def split: sum.splits)

lemma targets_cache:
  "isAnalyzeTargetGodeps w (g\<lparr>statsGlobal := c\<rparr>) d p = isAnalyzeTargetGodeps w g d p"
  "isAnalyzeTargetVendor w (g\<lparr>statsGlobal := c\<rparr>) d p = isAnalyzeTargetVendor w g d p"
  by (simp_all add: isAnalyzeTargetGodeps_def isAnalyzeTargetVendor_def)

lemma walkFn_cache:
  "walkFn w d e (stats, g\<lparr>statsGlobal := c\<rparr>) = withCacheW c (walkFn w d e (stats, g))"
proof (cases e)
  case (Pair p i)
  show ?thesis
    unfolding Pair
    by (cases i) (auto simp: withCacheW_def targets_cache analyzeFile_cache withCache_def split: sum.splits)
qed

lemma filepathWalk_cache:
  "filepathWalk es (walkFn w d) (stats, g\<lparr>statsGlobal := c\<rparr>)
   = withCacheW c (filepathWalk es (walkFn w d) (stats, g))"
proof (induction es arbitrary: stats g)
  case Nil
  show ?case by (simp add: withCacheW_def)
next
  case (Cons e es)
  show ?case
  proof (cases "walkFn w d e (stats, g)")
    case (Inl fatal)
    then show ?thesis by (simp add: walkFn_cache withCacheW_def)
  next
    case (Inr r)
    obtain stats' g' res where r: "r = ((stats', g'), res)"
      by (metis prod.exhaust)
    show ?thesis
    proof (cases res)
      case None
      then show ?thesis
        using Inr r Cons.IH[of stats' g'] by (simp add: walkFn_cache withCacheW_def)
    next
      case (Some err)
      then show ?thesis
        using Inr r by (simp add: walkFn_cache withCacheW_def)
    qed
  qed
qed

lemma analyzeDir_cache:
  "analyzeDir w d stats (g\<lparr>statsGlobal := c\<rparr>) = withCache c (analyzeDir w d stats g)"
proof -
  have "logEvent (WalkCall d) (g\<lparr>statsGlobal := c\<rparr>) = (logEvent (WalkCall d) g)\<lparr>statsGlobal := c\<rparr>"
    by (simp add: logEvent_def)
  then show ?thesis
    unfolding analyzeDir_def
    by (simp add: filepathWalk_cache withCacheW_def withCache_def split: sum.splits prod.splits)
qed

lemma isDir_cache:
  "isDir w p (g\<lparr>statsGlobal := c\<rparr>) = (fst (isDir w p g), (snd (isDir w p g))\<lparr>statsGlobal := c\<rparr>)"
  by (simp add: isDir_def logEvent_def)

lemma analyze_loop_cache:
  "analyze_loop w paths stats (g\<lparr>statsGlobal := c\<rparr>) = withCache c (analyze_loop w paths stats g)"
proof (induction paths arbitrary: stats g)
  case Nil
  show ?case by (simp add: withCache_def)
next
  case (Cons p ps)
  obtain b g1 where d: "isDir w p g = (b, g1)"
    by (metis prod.exhaust)
  have d': "isDir w p (g\<lparr>statsGlobal := c\<rparr>) = (b, g1\<lparr>statsGlobal := c\<rparr>)"
    by (simp add: isDir_cache d)
  show ?case
  proof (cases b)
    case True
    show ?thesis
    proof (cases "analyzeDir w p stats g1")
      case (Inl fatal)
      then show ?thesis using True d d' by (simp add: analyzeDir_cache withCache_def)
    next
      case (Inr r)
      obtain stats' g' where r: "r = (stats', g')" by (metis prod.exhaust)
      show ?thesis
        using True d d' Inr r Cons.IH[of stats' g'] by (simp add: analyzeDir_cache withCache_def)
    qed
  next
    case False
    show ?thesis
    proof (cases "analyzeFile w p stats g1")
      case (Inl fatal)
      then show ?thesis using False d d' by (simp add: analyzeFile_cache withCache_def)
    next
      case (Inr r)
      obtain stats' g' where r: "r = (stats', g')" by (metis prod.exhaust)
      show ?thesis
        using False d d' Inr r Cons.IH[of stats' g'] by (simp add: analyzeFile_cache withCache_def)
    qed
  qed
qed

lemma analyze_cache:
  "analyze w paths (g\<lparr>statsGlobal := c\<rparr>) = withCache c (analyze w paths g)"
  by (simp add: analyze_def analyze_loop_cache)

section \<open>What the analysis keeps\<close>

lemma filepathWalk_invariant_on:
  assumes "filepathWalk es f s = Inr (s', r)" and "I s" and "set es \<subseteq> S"
    and step: "\<And>e t t' r'. e \<in> S \<Longrightarrow> I t \<Longrightarrow> f e t = Inr (t', r') \<Longrightarrow> I t'"
  shows "I s'"
  using assms(1,2,3)
proof (induction es arbitrary: s)
  case Nil
  then show ?case by simp
next
  case (Cons e es)
  show ?case
  proof (cases "f e s")
    case (Inl fatal)
    then show ?thesis using Cons.prems(1) by simp
  next
    case (Inr p)
    obtain t res where p: "p = (t, res)" by (metis prod.exhaust)
    have It: "I t"
      using step[of e s t res] Cons.prems(2,3) Inr p by simp
    show ?thesis
    proof (cases res)
      case None
      then have "filepathWalk es f t = Inr (s', r)"
        using Cons.prems(1) Inr p by simp
      then show ?thesis
        using Cons.IH[of t] It Cons.prems(3) by simp
    next
      case (Some err)
      then have "s' = t"
        using Cons.prems(1) Inr p by simp
      then show ?thesis using It by simp
    qed
  qed
qed

lemma filepathWalk_invariant:
  assumes "filepathWalk es f s = Inr (s', r)" and "I s"
    and step: "\<And>e t t' r'. I t \<Longrightarrow> f e t = Inr (t', r') \<Longrightarrow> I t'"
  shows "I s'"
  using assms(1,2) subset_UNIV
  by (rule filepathWalk_invariant_on[where I = I]) (rule step)

lemma analyzeFile_stable:
  "stable I \<Longrightarrow> I (stats, g) \<Longrightarrow> analyzeFile w p stats g = Inr (stats', g') \<Longrightarrow> I (stats', g')"
  by (auto simp: analyzeFile_def stable_def split: sum.splits)

lemma walkFn_stable:
  assumes "stable I" "I sg" "walkFn w d e sg = Inr (sg', r)"
  shows "I sg'"
proof -
  obtain stats g where sg: "sg = (stats, g)" by (metis prod.exhaust)
  obtain stats' g' where sg': "sg' = (stats', g')" by (metis prod.exhaust)
  obtain p i where e: "e = (p, i)" by (metis prod.exhaust)
  show ?thesis
  proof (cases i)
    case (Inl err)
    then show ?thesis using assms sg e by simp
  next
    case (Inr isdir)
    then show ?thesis
      using assms(2,3) analyzeFile_stable[OF assms(1), of stats g w p stats' g'] sg sg' e
      by (auto split: if_splits sum.splits)
  qed
qed

lemma analyzeDir_stable:
  assumes "stable I" "I (stats, g)" "analyzeDir w d stats g = Inr (stats', g')"
  shows "I (stats', g')"
proof -
  from assms(3) obtain r where
    walk: "filepathWalk (WalkEntries w d) (walkFn w d) (stats, logEvent (WalkCall d) g) = Inr ((stats', g'), r)"
    by (auto simp: analyzeDir_def split: sum.splits)
  have "I (stats, logEvent (WalkCall d) g)"
    using assms(1,2) by (simp add: stable_def)
  with walk show ?thesis
    by (rule filepathWalk_invariant) (rule walkFn_stable[OF assms(1)])
qed

lemma isDir_stable:
  "stable I \<Longrightarrow> I (stats, g) \<Longrightarrow> I (stats, snd (isDir w p g))"
  by (simp add: isDir_def stable_def)

lemma analyze_loop_stable:
  "stable I \<Longrightarrow> I (stats, g) \<Longrightarrow> analyze_loop w paths stats g = Inr (stats', g') \<Longrightarrow> I (stats', g')"
proof (induction paths arbitrary: stats g)
  case Nil
  then show ?case by simp
next
  case (Cons p ps)
  obtain b g1 where d: "isDir w p g = (b, g1)" by (metis prod.exhaust)
  have I1: "I (stats, g1)"
    using isDir_stable[OF Cons.prems(1,2), of w p] d by simp
  show ?case
  proof (cases b)
    case True
    with Cons.prems(3) d obtain st1 g2 where
      dir: "analyzeDir w p stats g1 = Inr (st1, g2)" and rest: "analyze_loop w ps st1 g2 = Inr (stats', g')"
      by (auto split: sum.splits)
    from analyzeDir_stable[OF Cons.prems(1) I1 dir] rest show ?thesis
      using Cons.IH[OF Cons.prems(1)] by blast
  next
    case False
    with Cons.prems(3) d obtain st1 g2 where
      one: "analyzeFile w p stats g1 = Inr (st1, g2)" and rest: "analyze_loop w ps st1 g2 = Inr (stats', g')"
      by (auto split: sum.splits)
    from analyzeFile_stable[OF Cons.prems(1) I1 one] rest show ?thesis
      using Cons.IH[OF Cons.prems(1)] by blast
  qed
qed

lemma appendSlice_not_empty: "appendSlice s x \<noteq> Some []"
  by (cases s) auto

lemma buildStats_loop_not_empty:
  "stats \<noteq> Some [] \<Longrightarrow> buildStats_loop pkg ds stats \<noteq> Some []"
proof (induction ds arbitrary: stats)
  case Nil
  then show ?case by simp
next
  case (Cons d ds)
  then show ?case
    by (cases d) (simp_all add: appendSlice_not_empty)
qed

lemma stable_not_empty: "stable (\<lambda>(stats, g). stats \<noteq> Some [])"
  by (simp add: stable_def buildStats_def buildStats_loop_not_empty)

lemma stable_globals:
  "stable (\<lambda>(stats, g). skipGodepsGlobal g = a \<and> skipVendorGlobal g = b \<and> statsGlobal g = c)"
  by (simp add: stable_def logEvent_def)

lemma complexity_pos: "1 \<le> complexity fn"
proof -
  have "branchPoint (funcDeclNode fn)"
    by (simp add: funcDeclNode_def branchPoint_def)
  then have "1 \<le> specScore (funcDeclNode fn)"
    by (cases "funcDeclNode fn") (simp add: specScore_def)
  then show ?thesis
    by (simp add: complexity_def Walk_count(1))
qed

lemma elems_appendSlice: "elems (appendSlice s x) = elems s @ [x]"
  by (cases s) auto

lemma buildStats_loop_allPositive:
  "allPositive stats \<Longrightarrow> allPositive (buildStats_loop pkg ds stats)"
proof (induction ds arbitrary: stats)
  case Nil
  then show ?case by simp
next
  case (Cons d ds)
  then show ?case
    by (cases d) (simp_all add: allPositive_def elems_appendSlice complexity_pos)
qed

lemma stable_allPositive: "stable (\<lambda>(stats, g). allPositive stats)"
  by (simp add: stable_def buildStats_def buildStats_loop_allPositive)

lemma analyze_globals:
  assumes "analyze w paths g = Inr (stats, g')"
  shows "skipGodepsGlobal g' = skipGodepsGlobal g" "skipVendorGlobal g' = skipVendorGlobal g"
    "statsGlobal g' = statsGlobal g"
  using analyze_loop_stable[OF stable_globals, of "skipGodepsGlobal g" "skipVendorGlobal g" "statsGlobal g" None g w paths stats g']
    assms
  by (simp_all add: analyze_def)

lemma analyze_not_empty:
  assumes "analyze w paths g = Inr (stats, g')"
  shows "stats \<noteq> Some []"
  using analyze_loop_stable[OF stable_not_empty, of None g w paths stats g'] assms
  by (simp add: analyze_def)

lemma analyze_allPositive:
  assumes "analyze w paths g = Inr (stats, g')"
  shows "allPositive stats"
  using analyze_loop_stable[OF stable_allPositive, of None g w paths stats g'] assms
  by (simp add: analyze_def allPositive_def)

section \<open>The cache\<close>

lemmas demo_defs =
  demoWorld_def demoStat_def demoParseFile_def demoWalkEntries_def fileMain_def fileLib_def fileDoc_def
  emptyFunc_def exampleFunc_def exampleBody_def closureFunc_def closureBody_def pointDist_def plainFunc_def noParams_def block_def ident_def
  loopLit_def statE_def statF_def statG_def statDist_def

lemma mset_sortWith: "mset (sortWith srt s) = mset s"
  using Rep_sorter[of srt] by (simp add: sortWith_def)

lemma sortWith_exampleSorter: "sortWith exampleSorter s = insertionSort s"
  by (simp add: sortWith_def exampleSorter_def Abs_sorter_inverse insertionSort_sorts(2))

lemmas run_defs =
  GetStats_def getStats_def analyze_def analyzeDir_def analyzeFile_def isDir_def logEvent_def
  isAnalyzeTargetGodeps_def isAnalyzeTargetVendor_def buildStats_def funcName_def complexity_def
  funcDeclNode_def funcDeclChildren_def fieldListNode_def fieldNode_def initState_def
  sortWith_exampleSorter insertionSort_def Len_def Less_def Swap_def suffix_to_prefix

lemma sortSort_elems:
  "mset (elems (sortSort srt c)) = mset (elems c)" "length (elems (sortSort srt c)) = length (elems c)"
  "(sortSort srt c = None) = (c = None)"
proof -
  show m: "mset (elems (sortSort srt c)) = mset (elems c)"
    by (cases c) (simp_all add: mset_sortWith)
  show "length (elems (sortSort srt c)) = length (elems c)"
    using m by (metis size_mset)
  show "(sortSort srt c = None) = (c = None)"
    by (cases c) simp_all
qed

lemma getStats_hit:
  assumes "statsGlobal g \<noteq> None" "skipGodepsGlobal g = skipGodeps" "skipVendorGlobal g = skipVendor"
  shows "getStats srt w paths skipGodeps skipVendor g
      = Inr (sortSort srt (statsGlobal g), g\<lparr>statsGlobal := sortSort srt (statsGlobal g)\<rparr>)"
proof -
  have "\<not> (statsGlobal g = None \<or> skipGodepsGlobal g \<noteq> skipGodeps \<or> skipVendorGlobal g \<noteq> skipVendor)"
    using assms by simp
  then show ?thesis
    unfolding getStats_def by (simp only: if_False)
qed

lemma getStats_miss:
  assumes "statsGlobal g = None \<or> skipGodepsGlobal g \<noteq> skipGodeps \<or> skipVendorGlobal g \<noteq> skipVendor"
  shows "getStats srt w paths skipGodeps skipVendor g
      = (case analyze w paths (g\<lparr>skipGodepsGlobal := skipGodeps, skipVendorGlobal := skipVendor\<rparr>) of
           Inl fatal \<Rightarrow> Inl fatal
         | Inr (stats, g') \<Rightarrow> Inr (sortSort srt stats, g'\<lparr>statsGlobal := sortSort srt stats\<rparr>))"
  unfolding getStats_def using assms by (simp only: if_True)

lemma rebuild_ignores_cache:
  "(case analyze w paths (g\<lparr>statsGlobal := c\<rparr>) of
      Inl fatal \<Rightarrow> Inl fatal
    | Inr (stats, g') \<Rightarrow> Inr (sortSort srt stats, g'\<lparr>statsGlobal := sortSort srt stats\<rparr>))
   = (case analyze w paths g of
      Inl fatal \<Rightarrow> Inl fatal
    | Inr (stats, g') \<Rightarrow> Inr (sortSort srt stats, g'\<lparr>statsGlobal := sortSort srt stats\<rparr>))"
proof (cases "analyze w paths g")
  case (Inl fatal)
  then show ?thesis
    by (simp add: analyze_cache withCache_def)
next
  case (Inr r)
  obtain stats g' where "r = (stats, g')" by (metis prod.exhaust)
  with Inr show ?thesis
    by (simp add: analyze_cache withCache_def)
qed

text \<open>
  Claim C2. A call whose flags equal the cached flags, made while a cached slice exists
  (is not \<^verbatim>\<open>nil\<close>), returns the cached measurements, sorted, whatever the paths and
  whatever the environment would answer: nothing is added to the log of calls, so neither
  the walker nor the parser runs. A call with another flag pair, or made while the cache
  is \<^verbatim>\<open>nil\<close>, stores the flags and returns what a full analysis of the paths gives, sorted;
  the former content of the cache has no part in it. The average entry point does to the
  state what the measurement entry point does.
\<close>

theorem getStats_cache_contract:
  "(statsGlobal g \<noteq> None \<and> skipGodepsGlobal g = skipGodeps \<and> skipVendorGlobal g = skipVendor \<longrightarrow>
      GetStats srt w paths skipGodeps skipVendor g
        = Inr (sortSort srt (statsGlobal g), g\<lparr>statsGlobal := sortSort srt (statsGlobal g)\<rparr>)
      \<and> mset (elems (sortSort srt (statsGlobal g))) = mset (elems (statsGlobal g)))
   \<and> (statsGlobal g = None \<or> skipGodepsGlobal g \<noteq> skipGodeps \<or> skipVendorGlobal g \<noteq> skipVendor \<longrightarrow>
      GetStats srt w paths skipGodeps skipVendor g
        = (case analyze w paths
                  (g\<lparr>skipGodepsGlobal := skipGodeps, skipVendorGlobal := skipVendor, statsGlobal := None\<rparr>) of
             Inl fatal \<Rightarrow> Inl fatal
           | Inr (stats, g') \<Rightarrow> Inr (sortSort srt stats, g'\<lparr>statsGlobal := sortSort srt stats\<rparr>)))
   \<and> Average srt w paths skipGodeps skipVendor g
        = (case GetStats srt w paths skipGodeps skipVendor g of
             Inl fatal \<Rightarrow> Inl fatal
           | Inr (stats, g') \<Rightarrow> Inr (averageOperands stats, g'))"
proof (intro conjI impI)
  show "Average srt w paths skipGodeps skipVendor g
        = (case GetStats srt w paths skipGodeps skipVendor g of
             Inl fatal \<Rightarrow> Inl fatal
           | Inr (stats, g') \<Rightarrow> Inr (averageOperands stats, g'))"
    by (simp add: Average_def GetStats_def)
next
  assume hit: "statsGlobal g \<noteq> None \<and> skipGodepsGlobal g = skipGodeps \<and> skipVendorGlobal g = skipVendor"
  then show "GetStats srt w paths skipGodeps skipVendor g
      = Inr (sortSort srt (statsGlobal g), g\<lparr>statsGlobal := sortSort srt (statsGlobal g)\<rparr>)"
    unfolding GetStats_def by (intro getStats_hit) simp_all
  show "mset (elems (sortSort srt (statsGlobal g))) = mset (elems (statsGlobal g))"
    by (rule sortSort_elems(1))
next
  assume miss: "statsGlobal g = None \<or> skipGodepsGlobal g \<noteq> skipGodeps \<or> skipVendorGlobal g \<noteq> skipVendor"
  show "GetStats srt w paths skipGodeps skipVendor g
        = (case analyze w paths
                  (g\<lparr>skipGodepsGlobal := skipGodeps, skipVendorGlobal := skipVendor, statsGlobal := None\<rparr>) of
             Inl fatal \<Rightarrow> Inl fatal
           | Inr (stats, g') \<Rightarrow> Inr (sortSort srt stats, g'\<lparr>statsGlobal := sortSort srt stats\<rparr>))"
    unfolding GetStats_def getStats_miss[OF miss] rebuild_ignores_cache ..
qed

theorem getStats_cache_contract_witness:
  "GetStats exampleSorter demoWorld [''doc.go''] True False cachedState
     = Inr (Some [statF, statE], cachedState\<lparr>statsGlobal := Some [statF, statE]\<rparr>)
   \<and> GetStats exampleSorter demoWorld [''vendor/notes.txt''] True True cachedState
     = Inr (Some [statDist],
         \<lparr>skipGodepsGlobal = True, skipVendorGlobal = True, statsGlobal = Some [statDist],
          trace = [StatCall ''src'', WalkCall ''src'', ParseCall ''src/main.go'',
                   StatCall ''vendor/notes.txt'', ParseCall ''vendor/notes.txt'']\<rparr>)"
  using getStats_cache_contract[where g = cachedState and skipGodeps = True and skipVendor = False
      and srt = exampleSorter and w = demoWorld and paths = "[''doc.go'']"]
    getStats_cache_contract[where g = cachedState and skipGodeps = True and skipVendor = True
      and srt = exampleSorter and w = demoWorld and paths = "[''vendor/notes.txt'']"]
  by (simp add: cachedState_def run_defs demo_defs)

lemma sortWith_Nil_iff: "sortWith srt s = [] \<longleftrightarrow> s = []"
  using mset_sortWith[of srt s] by (metis mset_zero_iff)

lemma sortSort_not_empty: "c \<noteq> Some [] \<Longrightarrow> sortSort srt c \<noteq> Some []"
  by (cases c) (simp_all add: sortWith_Nil_iff)

lemma getStats_wellFormed:
  assumes "statsGlobal g \<noteq> Some []" "GetStats srt w paths a b g = Inr (stats, g')"
  shows "stats \<noteq> Some [] \<and> statsGlobal g' = stats \<and> skipGodepsGlobal g' = a \<and> skipVendorGlobal g' = b"
proof (cases "statsGlobal g = None \<or> skipGodepsGlobal g \<noteq> a \<or> skipVendorGlobal g \<noteq> b")
  case True
  with assms(2) obtain st g1 where
    an: "analyze w paths (g\<lparr>skipGodepsGlobal := a, skipVendorGlobal := b\<rparr>) = Inr (st, g1)"
    and res: "stats = sortSort srt st" "g' = g1\<lparr>statsGlobal := sortSort srt st\<rparr>"
    by (auto simp: GetStats_def getStats_def split: sum.splits)
  have "st \<noteq> Some []"
    using analyze_not_empty[OF an] .
  then have "stats \<noteq> Some []"
    using res(1) by (simp add: sortSort_not_empty)
  moreover have "statsGlobal g' = stats"
    using res by simp
  moreover have "skipGodepsGlobal g' = a" "skipVendorGlobal g' = b"
    using analyze_globals(1,2)[OF an] res(2) by simp_all
  ultimately show ?thesis by simp
next
  case False
  with assms(2) have res: "stats = sortSort srt (statsGlobal g)" "g' = g\<lparr>statsGlobal := sortSort srt (statsGlobal g)\<rparr>"
    by (auto simp: GetStats_def getStats_def)
  have "stats \<noteq> Some []"
    using res(1) assms(1) by (simp add: sortSort_not_empty)
  moreover have "statsGlobal g' = stats"
    using res by simp
  moreover have "skipGodepsGlobal g' = a" "skipVendorGlobal g' = b"
    using False res(2) by simp_all
  ultimately show ?thesis by simp
qed

text \<open>
  Claim C10. When a call returns no measurement, what it leaves in the cache is the
  \<^verbatim>\<open>nil\<close> slice; the test of the cache takes it for an absent cache, so every later call
  with the same flags runs the full analysis again, for any paths and environment. (The
  program never builds a slice that is empty and not \<^verbatim>\<open>nil\<close>: the cache starts as \<^verbatim>\<open>nil\<close>
  and \<open>getStats_wellFormed\<close> shows that a call keeps it so.)
\<close>

theorem empty_result_is_not_served:
  assumes "statsGlobal g \<noteq> Some []"
    and "GetStats srt w paths skipGodeps skipVendor g = Inr (stats, g')"
    and "elems stats = []"
  shows "stats = None \<and> statsGlobal g' = None
    \<and> skipGodepsGlobal g' = skipGodeps \<and> skipVendorGlobal g' = skipVendor
    \<and> (\<forall>w' paths'. GetStats srt w' paths' skipGodeps skipVendor g'
          = (case analyze w' paths' g' of
               Inl fatal \<Rightarrow> Inl fatal
             | Inr (stats', g'') \<Rightarrow> Inr (sortSort srt stats', g''\<lparr>statsGlobal := sortSort srt stats'\<rparr>)))"
proof -
  have wf: "stats \<noteq> Some []" "statsGlobal g' = stats" "skipGodepsGlobal g' = skipGodeps"
      "skipVendorGlobal g' = skipVendor"
    using getStats_wellFormed[OF assms(1,2)] by simp_all
  have none: "stats = None"
    using wf(1) assms(3) by (cases stats) auto
  then have cache: "statsGlobal g' = None"
    using wf(2) by simp
  have same: "g'\<lparr>skipGodepsGlobal := skipGodeps, skipVendorGlobal := skipVendor\<rparr> = g'"
    using wf(3,4) by simp
  have "GetStats srt w' paths' skipGodeps skipVendor g'
          = (case analyze w' paths' g' of
               Inl fatal \<Rightarrow> Inl fatal
             | Inr (stats', g'') \<Rightarrow> Inr (sortSort srt stats', g''\<lparr>statsGlobal := sortSort srt stats'\<rparr>))"
    for w' paths'
    using cache same by (simp add: GetStats_def getStats_def)
  then show ?thesis
    using none cache wf(3,4) by simp
qed

theorem empty_result_is_not_served_witness:
  "GetStats exampleSorter demoWorld [''doc.go''] False False initState
     = Inr (None, initState\<lparr>trace := [StatCall ''doc.go'', ParseCall ''doc.go'']\<rparr>)
   \<and> GetStats exampleSorter demoWorld [''doc.go''] False False (initState\<lparr>trace := [StatCall ''doc.go'', ParseCall ''doc.go'']\<rparr>)
     = Inr (None, initState\<lparr>trace := [StatCall ''doc.go'', ParseCall ''doc.go'', StatCall ''doc.go'', ParseCall ''doc.go'']\<rparr>)"
proof -
  have wf: "statsGlobal initState \<noteq> Some []"
    by (simp add: initState_def)
  have run: "GetStats exampleSorter demoWorld [''doc.go''] False False initState
     = Inr (None, initState\<lparr>trace := [StatCall ''doc.go'', ParseCall ''doc.go'']\<rparr>)"
    by (simp add: run_defs demo_defs)
  have "elems (None :: stat slice) = []"
    by simp
  from empty_result_is_not_served[OF wf run this]
  have "GetStats exampleSorter demoWorld [''doc.go''] False False (initState\<lparr>trace := [StatCall ''doc.go'', ParseCall ''doc.go'']\<rparr>)
     = (case analyze demoWorld [''doc.go''] (initState\<lparr>trace := [StatCall ''doc.go'', ParseCall ''doc.go'']\<rparr>) of
               Inl fatal \<Rightarrow> Inl fatal
             | Inr (stats', g'') \<Rightarrow> Inr (sortSort exampleSorter stats', g''\<lparr>statsGlobal := sortSort exampleSorter stats'\<rparr>))"
    by blast
  then show ?thesis
    using run by (simp add: run_defs demo_defs)
qed

section \<open>Every function counts at least once\<close>

lemma complexity_sigFunc: "complexity sigFunc = 2"
  by (simp add: complexity_def sigFunc_def loopLit_def funcDeclNode_def
      funcDeclChildren_def noParams_def block_def ident_def)

text \<open>
  Claim C5, as stated, fails for \<open>sigFunc\<close>: its body is empty, so the body holds no branch
  point and no logical operator, and its complexity is 2, because the walk also covers the
  signature (and the receiver), where a function literal may stand.
\<close>

theorem empty_body_counterexample:
  "Body sigFunc = Some (block []) \<and> filter counted (bodyNodes sigFunc) = [] \<and> complexity sigFunc = 2"
  using complexity_sigFunc
  by (simp add: sigFunc_def bodyNodes_def block_def counted_def branchPoint_def logicalOp_def)

lemma complexity_one:
  assumes "filter counted (nodesList (funcDeclChildren fn)) = []"
  shows "complexity fn = 1"
proof -
  have "filter branchPoint (nodesList (funcDeclChildren fn)) = []"
    "filter logicalOp (nodesList (funcDeclChildren fn)) = []"
    using assms by (auto simp: filter_empty_conv counted_def)
  then show ?thesis
    by (simp add: complexity_def Walk_count(1) specScore_def funcDeclNode_def branchPoint_def logicalOp_def)
qed

lemma getStats_allPositive:
  assumes "allPositive (statsGlobal g)" "GetStats srt w paths a b g = Inr (stats, g')"
  shows "allPositive stats \<and> allPositive (statsGlobal g')"
proof -
  have pres: "allPositive c \<Longrightarrow> allPositive (sortSort srt c)" for c
    using sortSort_elems(1)[of srt c]
    by (metis allPositive_def list_all_iff set_mset_mset)
  show ?thesis
  proof (cases "statsGlobal g = None \<or> skipGodepsGlobal g \<noteq> a \<or> skipVendorGlobal g \<noteq> b")
    case True
    with assms(2) obtain st g1 where
      an: "analyze w paths (g\<lparr>skipGodepsGlobal := a, skipVendorGlobal := b\<rparr>) = Inr (st, g1)"
      and res: "stats = sortSort srt st" "g' = g1\<lparr>statsGlobal := sortSort srt st\<rparr>"
      unfolding GetStats_def getStats_miss[OF True] by (auto split: sum.splits)
    show ?thesis
      using pres[OF analyze_allPositive[OF an]] res by simp
  next
    case False
    then have "GetStats srt w paths a b g = Inr (sortSort srt (statsGlobal g), g\<lparr>statsGlobal := sortSort srt (statsGlobal g)\<rparr>)"
      unfolding GetStats_def by (intro getStats_hit) simp_all
    with assms(2) have "stats = sortSort srt (statsGlobal g)" "g' = g\<lparr>statsGlobal := sortSort srt (statsGlobal g)\<rparr>"
      by auto
    then show ?thesis
      using pres[OF assms(1)] by simp
  qed
qed

text \<open>
  Claim C5, amended. Every measurement has complexity at least 1: every declaration scores
  at least 1, so do all measurements an analysis returns, and the entry point returns and
  caches only such measurements when the cache held only such. A function with no branch
  point and no logical operator anywhere below its declaration node (receiver, signature
  and body) has complexity exactly 1; so has a function without parameters and with an
  empty body.
\<close>

theorem complexity_at_least_one:
  "1 \<le> complexity fn
   \<and> (filter counted (nodesList (funcDeclChildren fn)) = [] \<longrightarrow> complexity fn = 1)
   \<and> complexity (plainFunc name []) = 1
   \<and> (analyze w paths g = Inr (stats, g') \<longrightarrow> allPositive stats)
   \<and> (allPositive (statsGlobal g) \<and> GetStats srt w paths skipGodeps skipVendor g = Inr (stats, g')
        \<longrightarrow> allPositive stats \<and> allPositive (statsGlobal g'))"
proof -
  have "complexity (plainFunc name []) = 1"
    by (rule complexity_one)
      (simp add: plainFunc_def funcDeclChildren_def noParams_def block_def counted_def branchPoint_def
        logicalOp_def)
  then show ?thesis
    using complexity_pos[of fn] complexity_one[of fn] analyze_allPositive[of w paths g stats g']
      getStats_allPositive[of g srt w paths skipGodeps skipVendor stats g']
    by blast
qed

theorem complexity_at_least_one_witness:
  "1 \<le> complexity exampleFunc
   \<and> filter counted (nodesList (funcDeclChildren emptyFunc)) = [] \<and> complexity emptyFunc = 1
   \<and> GetStats exampleSorter demoWorld [''src''] True False cachedState
     = Inr (Some [statF, statE], cachedState\<lparr>statsGlobal := Some [statF, statE]\<rparr>)
   \<and> allPositive (Some [statF, statE])"
proof -
  have e: "filter counted (nodesList (funcDeclChildren emptyFunc)) = []"
    by (simp add: emptyFunc_def plainFunc_def funcDeclChildren_def noParams_def block_def counted_def
        branchPoint_def logicalOp_def)
  have c: "allPositive (statsGlobal cachedState)"
    by (simp add: cachedState_def allPositive_def statE_def statF_def)
  have run: "GetStats exampleSorter demoWorld [''src''] True False cachedState
     = Inr (Some [statF, statE], cachedState\<lparr>statsGlobal := Some [statF, statE]\<rparr>)"
    by (simp add: cachedState_def run_defs demo_defs)
  note t = complexity_at_least_one[where fn = emptyFunc and srt = exampleSorter and w = demoWorld and paths = "[''src'']"
        and g = cachedState and stats = "Some [statF, statE]"
        and g' = "cachedState\<lparr>statsGlobal := Some [statF, statE]\<rparr>"
        and skipGodeps = True and skipVendor = False]
  have p1: "1 \<le> complexity exampleFunc"
    using complexity_at_least_one[where fn = exampleFunc] by blast
  have p2: "complexity emptyFunc = 1"
    using t e by blast
  have p3: "allPositive (Some [statF, statE])"
    using t c run by blast
  from p1 e p2 run p3 show ?thesis
    by blast
qed

section \<open>Names of functions and methods\<close>

lemma NumFields_pos: "0 < NumFields (Some fl) \<longleftrightarrow> fl \<noteq> []"
  by (cases fl) auto




section \<open>Roots that are plain files\<close>

lemma isDir_eq: "isDir w path g = (fst (isDir w path g), logEvent (StatCall path) g)"
  by (simp add: isDir_def)

text \<open>
  Claim C9. A root that is not a directory is handed to the parser itself, whatever its
  name ends in and whatever the flags: the run goes on with the measurements of that file
  appended (or exits if it does not parse), and for this root the log grows by the
  \<^verbatim>\<open>os.Stat\<close> call and the parsing of this one file only.
\<close>

theorem plain_file_root_is_parsed:
  "\<not> fst (isDir w path g) \<Longrightarrow>
   analyze_loop w (path # paths) stats g
     = (case ParseFile w path of
          Inl err \<Rightarrow> Inl err
        | Inr f \<Rightarrow>
            analyze_loop w paths (buildStats f stats)
              (logEvent (ParseCall path) (logEvent (StatCall path) g)))
   \<and> analyze w [path] g
     = (case ParseFile w path of
          Inl err \<Rightarrow> Inl err
        | Inr f \<Rightarrow> Inr (buildStats f None, logEvent (ParseCall path) (logEvent (StatCall path) g)))"
proof -
  assume "\<not> fst (isDir w path g)"
  then have d: "isDir w path g = (False, logEvent (StatCall path) g)"
    using isDir_eq[of w path g] by simp
  have "analyze_loop w (path # ps) st g
     = (case ParseFile w path of
          Inl err \<Rightarrow> Inl err
        | Inr f \<Rightarrow>
            analyze_loop w ps (buildStats f st)
              (logEvent (ParseCall path) (logEvent (StatCall path) g)))" for ps st
    by (simp add: d analyzeFile_def split: sum.splits)
  from this[of paths stats] this[of "[]" None] show ?thesis
    by (simp add: analyze_def split: sum.splits)
qed

theorem plain_file_root_is_parsed_witness:
  "\<not> fst (isDir demoWorld ''vendor/notes.txt'' skipBoth)
   \<and> \<not> suffix ''.go'' ''vendor/notes.txt''
   \<and> excluded demoWorld skipBoth ''.'' ''vendor/notes.txt''
   \<and> analyze demoWorld [''vendor/notes.txt''] skipBoth
     = Inr (Some [statDist],
         skipBoth\<lparr>trace := [StatCall ''vendor/notes.txt'', ParseCall ''vendor/notes.txt'']\<rparr>)"
proof -
  have d: "\<not> fst (isDir demoWorld ''vendor/notes.txt'' skipBoth)"
    by (simp add: isDir_def demoWorld_def demoStat_def)
  have "analyze demoWorld [''vendor/notes.txt''] skipBoth
     = (case ParseFile demoWorld ''vendor/notes.txt'' of
          Inl err \<Rightarrow> Inl err
        | Inr f \<Rightarrow> Inr (buildStats f None,
            logEvent (ParseCall ''vendor/notes.txt'') (logEvent (StatCall ''vendor/notes.txt'') skipBoth)))"
    using plain_file_root_is_parsed[OF d] by blast
  then have "analyze demoWorld [''vendor/notes.txt''] skipBoth
     = Inr (Some [statDist],
         skipBoth\<lparr>trace := [StatCall ''vendor/notes.txt'', ParseCall ''vendor/notes.txt'']\<rparr>)"
    by (simp add: skipBoth_def run_defs demo_defs)
  moreover have "\<not> suffix ''.go'' ''vendor/notes.txt''"
    by (simp add: suffix_to_prefix)
  moreover have "excluded demoWorld skipBoth ''.'' ''vendor/notes.txt''"
    by (simp add: excluded_def reservedPrefix_def skipBoth_def)
  ultimately show ?thesis
    using d by blast
qed

section \<open>Exclusion during a directory walk\<close>

lemma suffix_go_name:
  assumes "name \<noteq> []" "sep \<noteq> CHR ''.''" "sep \<noteq> CHR ''g''"
  shows "suffix ''.go'' (dir @ sep # name) = suffix ''.go'' name"
proof -
  obtain a r where r: "rev name = a # r"
    using assms(1) by (cases "rev name") auto
  show ?thesis
  proof (cases r)
    case Nil
    then show ?thesis
      using r assms(3) by (simp add: suffix_to_prefix)
  next
    case (Cons b r')
    then show ?thesis
      using r assms(2) by (cases r') (simp_all add: suffix_to_prefix)
  qed
qed

lemma targets_iff:
  "(isAnalyzeTargetGodeps w g dirname path \<and> isAnalyzeTargetVendor w g dirname path)
   = (suffix ''.go'' path \<and> \<not> excluded w g dirname path)"
  by (auto simp: isAnalyzeTargetGodeps_def isAnalyzeTargetVendor_def excluded_def reservedPrefix_def Let_def)

lemma walkFn_skip:
  assumes "excluded w g dirname path \<or> \<not> suffix ''.go'' path \<or> isdir"
  shows "walkFn w dirname (path, Inr isdir) (stats, g) = Inr ((stats, g), None)"
proof -
  have "\<not> (\<not> isdir \<and> isAnalyzeTargetGodeps w g dirname path \<and> isAnalyzeTargetVendor w g dirname path)"
    using assms targets_iff[of w g dirname path] by blast
  then show ?thesis
    by (simp only: walkFn.simps if_False)
qed

lemma walkFn_parse:
  assumes "\<not> excluded w g dirname path" "suffix ''.go'' path"
  shows "walkFn w dirname (path, Inr False) (stats, g)
    = (case ParseFile w path of
         Inl fatal \<Rightarrow> Inl fatal
       | Inr f \<Rightarrow> Inr ((buildStats f stats, logEvent (ParseCall path) g), None))"
proof -
  have "\<not> False \<and> isAnalyzeTargetGodeps w g dirname path \<and> isAnalyzeTargetVendor w g dirname path"
    using assms targets_iff[of w g dirname path] by blast
  then have "walkFn w dirname (path, Inr False) (stats, g)
     = (case analyzeFile w path stats g of Inl fatal \<Rightarrow> Inl fatal | Inr sg \<Rightarrow> Inr (sg, None))"
    by simp
  then show ?thesis
    by (simp add: analyzeFile_def split: sum.splits)
qed

lemma excluded_cong:
  "skipGodepsGlobal h = skipGodepsGlobal g \<Longrightarrow> skipVendorGlobal h = skipVendorGlobal g
   \<Longrightarrow> excluded w h dirname p = excluded w g dirname p"
  by (simp add: excluded_def)

lemma walkFn_walkedOnly:
  assumes "e \<in> set (WalkEntries w dirname)" "walkedOnly w g dirname (snd t)"
    "walkFn w dirname e t = Inr (t', r)"
  shows "walkedOnly w g dirname (snd t')"
proof -
  obtain stats h where t: "t = (stats, h)" by (metis prod.exhaust)
  obtain p i where e: "e = (p, i)" by (metis prod.exhaust)
  have flags: "skipGodepsGlobal h = skipGodepsGlobal g" "skipVendorGlobal h = skipVendorGlobal g"
    using assms(2) t by (simp_all add: walkedOnly_def)
  from assms(2) t obtain files where
    files: "trace h = trace g @ WalkCall dirname # map ParseCall files"
      "\<forall>p\<in>set files. suffix ''.go'' p \<and> \<not> excluded w g dirname p
          \<and> (p, Inr False) \<in> set (WalkEntries w dirname)"
    by (auto simp: walkedOnly_def)
  show ?thesis
  proof (cases i)
    case (Inl err)
    then show ?thesis using assms(2,3) t e by auto
  next
    case (Inr isdir)
    show ?thesis
    proof (cases "excluded w h dirname p \<or> \<not> suffix ''.go'' p \<or> isdir")
      case True
      then have "walkFn w dirname e t = Inr ((stats, h), None)"
        unfolding e t Inr by (rule walkFn_skip)
      then show ?thesis using assms(2,3) t by auto
    next
      case False
      then have ok: "\<not> excluded w g dirname p" "suffix ''.go'' p" "i = Inr False"
        using excluded_cong[OF flags, of w dirname p] Inr by auto
      have "walkFn w dirname e t
          = (case ParseFile w p of
               Inl fatal \<Rightarrow> Inl fatal
             | Inr f \<Rightarrow> Inr ((buildStats f stats, logEvent (ParseCall p) h), None))"
        unfolding e t ok(3) using False by (intro walkFn_parse) simp_all
      with assms(3) obtain f where t': "t' = (buildStats f stats, logEvent (ParseCall p) h)"
        by (auto split: sum.splits)
      have tr: "trace (logEvent (ParseCall p) h) = trace g @ WalkCall dirname # map ParseCall (files @ [p])"
        using files(1) by (simp add: logEvent_def)
      have all: "\<forall>q\<in>set (files @ [p]). suffix ''.go'' q \<and> \<not> excluded w g dirname q
          \<and> (q, Inr False) \<in> set (WalkEntries w dirname)"
        using files(2) ok assms(1) e by auto
      have "walkedOnly w g dirname (logEvent (ParseCall p) h)"
        unfolding walkedOnly_def
      proof (intro conjI exI[of _ "files @ [p]"])
        show "skipGodepsGlobal (logEvent (ParseCall p) h) = skipGodepsGlobal g"
          using flags by (simp add: logEvent_def)
        show "skipVendorGlobal (logEvent (ParseCall p) h) = skipVendorGlobal g"
          using flags by (simp add: logEvent_def)
        show "trace (logEvent (ParseCall p) h) = trace g @ WalkCall dirname # map ParseCall (files @ [p])"
          by (rule tr)
        show "\<forall>q\<in>set (files @ [p]). suffix ''.go'' q \<and> \<not> excluded w g dirname q
          \<and> (q, Inr False) \<in> set (WalkEntries w dirname)"
          by (rule all)
      qed
      then show ?thesis
        using t' by simp
    qed
  qed
qed

lemma analyzeDir_walkedOnly:
  assumes "analyzeDir w dirname stats g = Inr (stats', g')"
  shows "walkedOnly w g dirname g'"
proof -
  from assms obtain r where
    walk: "filepathWalk (WalkEntries w dirname) (walkFn w dirname) (stats, logEvent (WalkCall dirname) g)
      = Inr ((stats', g'), r)"
    by (auto simp: analyzeDir_def split: sum.splits)
  have start: "walkedOnly w g dirname (snd (stats, logEvent (WalkCall dirname) g))"
    by (simp add: walkedOnly_def logEvent_def)
  have "walkedOnly w g dirname (snd (stats', g'))"
    using walk start subset_refl
    by (rule filepathWalk_invariant_on[where I = "\<lambda>t. walkedOnly w g dirname (snd t)"])
      (rule walkFn_walkedOnly)
  then show ?thesis by simp
qed

text \<open>
  Claim C7. In a directory walk with the first flag set, an entry whose path starts with
  the root joined with \<open>Godeps\<close> (with the bare \<open>Godeps\<close> for the root \<open>.\<close>) is left out: the
  walk function returns without parsing it and without changing anything, whatever the
  second flag; the same holds for \<open>vendor\<close> and the second flag; and an entry whose path
  does not end in \<open>.go\<close> is left out too. Hence every file a completed walk has parsed ends
  in \<open>.go\<close>, is not excluded, and is an entry of the walk that is not a directory. For a
  path made of a directory, the separator and a name, the path ends in \<open>.go\<close> exactly when
  the name does.
\<close>

theorem reserved_directories_are_excluded:
  "(skipGodepsGlobal g \<and> prefix (reservedPrefix w dirname ''Godeps'') path
      \<longrightarrow> walkFn w dirname (path, Inr isdir) (stats, g) = Inr ((stats, g), None))
   \<and> (skipVendorGlobal g \<and> prefix (reservedPrefix w dirname ''vendor'') path
      \<longrightarrow> walkFn w dirname (path, Inr isdir) (stats, g) = Inr ((stats, g), None))
   \<and> (\<not> suffix ''.go'' path
      \<longrightarrow> walkFn w dirname (path, Inr isdir) (stats, g) = Inr ((stats, g), None))
   \<and> (analyzeDir w dirname stats g = Inr (stats', g')
      \<longrightarrow> (\<exists>files. trace g' = trace g @ WalkCall dirname # map ParseCall files
            \<and> (\<forall>p\<in>set files. suffix ''.go'' p \<and> \<not> excluded w g dirname p
                  \<and> (p, Inr False) \<in> set (WalkEntries w dirname))))
   \<and> (name \<noteq> [] \<and> PathSeparator w \<noteq> CHR ''.'' \<and> PathSeparator w \<noteq> CHR ''g''
      \<longrightarrow> suffix ''.go'' (dir @ PathSeparator w # name) = suffix ''.go'' name)"
proof (intro conjI impI)
  assume "skipGodepsGlobal g \<and> prefix (reservedPrefix w dirname ''Godeps'') path"
  then have "excluded w g dirname path \<or> \<not> suffix ''.go'' path \<or> isdir"
    by (simp add: excluded_def)
  then show "walkFn w dirname (path, Inr isdir) (stats, g) = Inr ((stats, g), None)"
    by (rule walkFn_skip)
next
  assume "skipVendorGlobal g \<and> prefix (reservedPrefix w dirname ''vendor'') path"
  then have "excluded w g dirname path \<or> \<not> suffix ''.go'' path \<or> isdir"
    by (simp add: excluded_def)
  then show "walkFn w dirname (path, Inr isdir) (stats, g) = Inr ((stats, g), None)"
    by (rule walkFn_skip)
next
  assume "\<not> suffix ''.go'' path"
  then have "excluded w g dirname path \<or> \<not> suffix ''.go'' path \<or> isdir"
    by simp
  then show "walkFn w dirname (path, Inr isdir) (stats, g) = Inr ((stats, g), None)"
    by (rule walkFn_skip)
next
  assume "analyzeDir w dirname stats g = Inr (stats', g')"
  from analyzeDir_walkedOnly[OF this]
  show "\<exists>files. trace g' = trace g @ WalkCall dirname # map ParseCall files
            \<and> (\<forall>p\<in>set files. suffix ''.go'' p \<and> \<not> excluded w g dirname p
                  \<and> (p, Inr False) \<in> set (WalkEntries w dirname))"
    by (simp add: walkedOnly_def)
next
  assume "name \<noteq> [] \<and> PathSeparator w \<noteq> CHR ''.'' \<and> PathSeparator w \<noteq> CHR ''g''"
  then show "suffix ''.go'' (dir @ PathSeparator w # name) = suffix ''.go'' name"
    by (simp add: suffix_go_name)
qed

theorem reserved_directories_are_excluded_witness:
  "skipGodepsGlobal skipGodepsOnly \<and> prefix (reservedPrefix demoWorld ''src'' ''Godeps'') ''src/Godeps/dep.go''
   \<and> walkFn demoWorld ''src'' (''src/Godeps/dep.go'', Inr False) (None, skipGodepsOnly)
       = Inr ((None, skipGodepsOnly), None)
   \<and> analyzeDir demoWorld ''src'' None skipGodepsOnly
       = Inr (Some [statE, statF, statG, statDist],
           skipGodepsOnly\<lparr>trace := [WalkCall ''src'', ParseCall ''src/main.go'', ParseCall ''src/vendor/lib.go'']\<rparr>)
   \<and> walkFn demoWorld ''src'' (''src/readme.md'', Inr False) (None, skipGodepsOnly)
       = Inr ((None, skipGodepsOnly), None)"
proof -
  have h: "skipGodepsGlobal skipGodepsOnly \<and> prefix (reservedPrefix demoWorld ''src'' ''Godeps'') ''src/Godeps/dep.go''"
    by (simp add: skipGodepsOnly_def reservedPrefix_def demoWorld_def)
  have s: "\<not> suffix ''.go'' ''src/readme.md''"
    by (simp add: suffix_to_prefix)
  have run: "analyzeDir demoWorld ''src'' None skipGodepsOnly
       = Inr (Some [statE, statF, statG, statDist],
           skipGodepsOnly\<lparr>trace := [WalkCall ''src'', ParseCall ''src/main.go'', ParseCall ''src/vendor/lib.go'']\<rparr>)"
    by (simp add: skipGodepsOnly_def run_defs demo_defs)
  note t = reserved_directories_are_excluded[where g = skipGodepsOnly and w = demoWorld and dirname = "''src''"
      and stats = None and isdir = False]
  have a: "walkFn demoWorld ''src'' (''src/Godeps/dep.go'', Inr False) (None, skipGodepsOnly)
       = Inr ((None, skipGodepsOnly), None)"
    using t[where path = "''src/Godeps/dep.go''"] h by blast
  have b: "walkFn demoWorld ''src'' (''src/readme.md'', Inr False) (None, skipGodepsOnly)
       = Inr ((None, skipGodepsOnly), None)"
    using t[where path = "''src/readme.md''"] s by blast
  from h a run b show ?thesis
    by blast
qed

section \<open>Errors during a directory walk\<close>

lemma filepathWalk_append:
  "filepathWalk (pre @ rest) f s
   = (case filepathWalk pre f s of
        Inl fatal \<Rightarrow> Inl fatal
      | Inr (s', Some err) \<Rightarrow> Inr (s', Some err)
      | Inr (s', None) \<Rightarrow> filepathWalk rest f s')"
proof (induction pre arbitrary: s)
  case Nil
  show ?case by simp
next
  case (Cons e es)
  show ?case
  proof (cases "f e s")
    case (Inl fatal)
    then show ?thesis by simp
  next
    case (Inr p)
    obtain t res where p: "p = (t, res)" by (metis prod.exhaust)
    show ?thesis
      using Inr p Cons.IH[of t] by (cases res) simp_all
  qed
qed

lemma walkFn_no_error:
  "walkFn w dirname (path, Inr isdir) sg = Inr (sg', r) \<Longrightarrow> r = None"
  by (cases sg) (auto split: if_splits sum.splits)

lemma filepathWalk_no_error:
  assumes "\<forall>e\<in>set pre. \<not> isl (snd e)"
    and "filepathWalk pre (walkFn w dirname) sg = Inr (sg', r)"
  shows "r = None"
  using assms
proof (induction pre arbitrary: sg)
  case Nil
  then show ?case by simp
next
  case (Cons e es)
  obtain path isdir where e: "e = (path, Inr isdir)"
    using Cons.prems(1) by (cases e; cases "snd e") auto
  show ?case
  proof (cases "walkFn w dirname e sg")
    case (Inl fatal)
    then show ?thesis using Cons.prems(2) by simp
  next
    case (Inr p)
    obtain t res where p: "p = (t, res)" by (metis prod.exhaust)
    have "res = None"
      using walkFn_no_error[of w dirname path isdir sg t res] Inr p e by simp
    then have "filepathWalk es (walkFn w dirname) t = Inr (sg', r)"
      using Cons.prems(2) Inr p by simp
    then show ?thesis
      using Cons.IH[of t] Cons.prems(1) by simp
  qed
qed

lemma filepathWalk_error_entry:
  assumes "\<forall>e\<in>set pre. \<not> isl (snd e)"
  shows "filepathWalk (pre @ (path, Inl err) # post) (walkFn w dirname) sg
   = (case filepathWalk pre (walkFn w dirname) sg of
        Inl fatal \<Rightarrow> Inl fatal
      | Inr (sg', r) \<Rightarrow> Inr (sg', Some err))"
proof (cases "filepathWalk pre (walkFn w dirname) sg")
  case (Inl fatal)
  then show ?thesis by (simp add: filepathWalk_append)
next
  case (Inr p)
  obtain sg' r where p: "p = (sg', r)" by (metis prod.exhaust)
  have "r = None"
    using filepathWalk_no_error[OF assms, of w dirname sg sg' r] Inr p by simp
  then show ?thesis
    using Inr p by (cases sg') (simp add: filepathWalk_append)
qed

text \<open>
  What the code does at an error: when an entry of a directory walk carries a file-system
  error (and none before it does), the walk ends there and \<^verbatim>\<open>filepath.Walk\<close> returns that
  error; \<^verbatim>\<open>analyzeDir\<close> does not read it, returns the measurements gathered before the error,
  and the analysis goes on with the next root.
\<close>

lemma walk_error_is_dropped:
  assumes "WalkEntries w dirname = pre @ (path, Inl err) # post"
    and "\<forall>e\<in>set pre. \<not> isl (snd e)"
  shows "filepathWalk (WalkEntries w dirname) (walkFn w dirname) (stats, g)
       = (case filepathWalk pre (walkFn w dirname) (stats, g) of
            Inl fatal \<Rightarrow> Inl fatal
          | Inr (sg', r) \<Rightarrow> Inr (sg', Some err))
    \<and> analyzeDir w dirname stats g
       = (case filepathWalk pre (walkFn w dirname) (stats, logEvent (WalkCall dirname) g) of
            Inl fatal \<Rightarrow> Inl fatal
          | Inr (sg', r) \<Rightarrow> Inr sg')
    \<and> (fst (isDir w dirname g) \<longrightarrow>
        analyze_loop w (dirname # paths) stats g
         = (case filepathWalk pre (walkFn w dirname)
                  (stats, logEvent (WalkCall dirname) (logEvent (StatCall dirname) g)) of
              Inl fatal \<Rightarrow> Inl fatal
            | Inr ((stats', g'), r) \<Rightarrow> analyze_loop w paths stats' g'))"
proof -
  note walk = filepathWalk_error_entry[OF assms(2), of path err post w dirname, folded assms(1)]
  have dir: "analyzeDir w dirname stats h
       = (case filepathWalk pre (walkFn w dirname) (stats, logEvent (WalkCall dirname) h) of
            Inl fatal \<Rightarrow> Inl fatal
          | Inr (sg', r) \<Rightarrow> Inr sg')" for h
    unfolding analyzeDir_def walk by (simp split: sum.splits prod.splits)
  have "analyze_loop w (dirname # paths) stats g
         = (case filepathWalk pre (walkFn w dirname)
                  (stats, logEvent (WalkCall dirname) (logEvent (StatCall dirname) g)) of
              Inl fatal \<Rightarrow> Inl fatal
            | Inr ((stats', g'), r) \<Rightarrow> analyze_loop w paths stats' g')"
    if "fst (isDir w dirname g)"
  proof -
    have d: "isDir w dirname g = (True, logEvent (StatCall dirname) g)"
      using that by (simp add: isDir_def)
    show ?thesis
      by (simp add: d dir split: sum.splits prod.splits)
  qed
  with walk[of "(stats, g)"] dir[of g] show ?thesis
    by blast
qed

lemma walk_error_is_dropped_example:
  "WalkEntries demoWorld ''locked''
     = [(''locked'', Inr True), (''locked/a.go'', Inr False)]
       @ (''locked/b'', Inl (Error ''permission denied'')) # [(''locked/c.go'', Inr False)]
   \<and> fst (isDir demoWorld ''locked'' initState)
   \<and> analyzeDir demoWorld ''locked'' None initState
     = Inr (Some [statE, statF, statG], initState\<lparr>trace := [WalkCall ''locked'', ParseCall ''locked/a.go'']\<rparr>)
   \<and> analyze_loop demoWorld [''locked'', ''doc.go''] None initState
     = Inr (Some [statE, statF, statG],
         initState\<lparr>trace := [StatCall ''locked'', WalkCall ''locked'', ParseCall ''locked/a.go'',
           StatCall ''doc.go'', ParseCall ''doc.go'']\<rparr>)"
proof -
  have entries: "WalkEntries demoWorld ''locked''
     = [(''locked'', Inr True), (''locked/a.go'', Inr False)]
       @ (''locked/b'', Inl (Error ''permission denied'')) # [(''locked/c.go'', Inr False)]"
    by (simp add: demoWorld_def demoWalkEntries_def)
  have pre: "\<forall>e\<in>set [(''locked'', Inr True), (''locked/a.go'', Inr False)]. \<not> isl (snd e)"
    by simp
  have d: "fst (isDir demoWorld ''locked'' initState)"
    by (simp add: isDir_def demoWorld_def demoStat_def)
  note t = walk_error_is_dropped[OF entries pre, of None initState "[''doc.go'']"]
  have a: "analyzeDir demoWorld ''locked'' None initState
     = (case filepathWalk [(''locked'', Inr True), (''locked/a.go'', Inr False)] (walkFn demoWorld ''locked'')
              (None, logEvent (WalkCall ''locked'') initState) of
            Inl fatal \<Rightarrow> Inl fatal
          | Inr (sg', r) \<Rightarrow> Inr sg')"
    using t by blast
  have b: "analyze_loop demoWorld [''locked'', ''doc.go''] None initState
         = (case filepathWalk [(''locked'', Inr True), (''locked/a.go'', Inr False)] (walkFn demoWorld ''locked'')
                  (None, logEvent (WalkCall ''locked'') (logEvent (StatCall ''locked'') initState)) of
              Inl fatal \<Rightarrow> Inl fatal
            | Inr ((stats', g'), r) \<Rightarrow> analyze_loop demoWorld [''doc.go''] stats' g')"
    using t d by blast
  have a': "analyzeDir demoWorld ''locked'' None initState
     = Inr (Some [statE, statF, statG], initState\<lparr>trace := [WalkCall ''locked'', ParseCall ''locked/a.go'']\<rparr>)"
    unfolding a by (simp add: run_defs demo_defs)
  have b': "analyze_loop demoWorld [''locked'', ''doc.go''] None initState
     = Inr (Some [statE, statF, statG],
         initState\<lparr>trace := [StatCall ''locked'', WalkCall ''locked'', ParseCall ''locked/a.go'',
           StatCall ''doc.go'', ParseCall ''doc.go'']\<rparr>)"
    unfolding b by (simp add: run_defs demo_defs)
  from entries d a' b' show ?thesis
    by blast
qed

text \<open>
  Claim C8. A file-system error met while walking a directory must end the whole analysis
  with that error, and no partial result may be returned. The code does not do so. In
  \<open>demoWorld\<close> the walk of \<open>locked\<close> meets an error at \<open>locked/b\<close>, after \<open>locked/a.go\<close> and before
  \<open>locked/c.go\<close>: the entry point returns and caches the measurements of \<open>locked/a.go\<close> alone,
  and no error reaches the caller. An error of the parser in a walk does end the run
  (\<^verbatim>\<open>log.Fatal\<close>), as for \<open>src/Godeps/dep.go\<close>.
\<close>

theorem walk_error_returns_partial_results:
  "(''locked/b'', Inl (Error ''permission denied'')) \<in> set (WalkEntries demoWorld ''locked'')
   \<and> GetStats exampleSorter demoWorld [''locked''] False False initState
     = Inr (Some [statF, statG, statE],
         \<lparr>skipGodepsGlobal = False, skipVendorGlobal = False, statsGlobal = Some [statF, statG, statE],
          trace = [StatCall ''locked'', WalkCall ''locked'', ParseCall ''locked/a.go'']\<rparr>)
   \<and> GetStats exampleSorter demoWorld [''src''] False False initState = Inl (Error ''expected declaration'')"
  by (simp add: run_defs demo_defs)

end
